theory Spec2Isabelle
  imports Main "HOL-Library.Sublist"
begin

section \<open>Strings\<close>

text \<open>
  Python strings are modelled as ASCII text (\<open>string\<close> = \<open>char list\<close>).  The helpers
  below are the string methods the script calls: \<open>str.lower\<close>, \<open>str.upper\<close>,
  \<open>str.strip\<close>, \<open>str.startswith\<close>, \<open>str.endswith\<close>, the substring test
  \<open>sub in s\<close>, and the whitespace class \<open>\s\<close> of \<open>re\<close>.
\<close>

definition is_space :: "char \<Rightarrow> bool" where
  "is_space c = (c \<in> set [CHR 0x20, CHR 0x09, CHR 0x0A, CHR 0x0B, CHR 0x0C, CHR 0x0D,
                           CHR 0x1C, CHR 0x1D, CHR 0x1E, CHR 0x1F])"

definition upper_letters :: string where
  "upper_letters = ''ABCDEFGHIJKLMNOPQRSTUVWXYZ''"

definition lower_letters :: string where
  "lower_letters = ''abcdefghijklmnopqrstuvwxyz''"

definition digit_chars :: string where
  "digit_chars = ''0123456789''"

definition lower_char :: "char \<Rightarrow> char" where
  "lower_char c = (case map_of (zip upper_letters lower_letters) c of Some d \<Rightarrow> d | None \<Rightarrow> c)"

definition upper_char :: "char \<Rightarrow> char" where
  "upper_char c = (case map_of (zip lower_letters upper_letters) c of Some d \<Rightarrow> d | None \<Rightarrow> c)"

definition lower :: "string \<Rightarrow> string" where
  "lower s = map lower_char s"

definition upper :: "string \<Rightarrow> string" where
  "upper s = map upper_char s"

definition strip :: "string \<Rightarrow> string" where
  "strip s = rev (dropWhile is_space (rev (dropWhile is_space s)))"

definition startswith :: "string \<Rightarrow> string \<Rightarrow> bool" where
  "startswith s p = (take (length p) s = p)"

definition endswith :: "string \<Rightarrow> string \<Rightarrow> bool" where
  "endswith s p = (length p \<le> length s \<and> drop (length s - length p) s = p)"

text \<open>\<open>contains s sub\<close> is Python's \<open>sub in s\<close>.\<close>

fun contains :: "string \<Rightarrow> string \<Rightarrow> bool" where
  "contains [] sub = (sub = [])"
| "contains (c # cs) sub = (startswith (c # cs) sub \<or> contains cs sub)"

text \<open>
  \<open>re_split sep s\<close> is \<open>re.split('[sep]+', s)\<close>: the pieces of \<open>s\<close> between maximal
  runs of separator characters (an empty piece where \<open>s\<close> starts or ends with one).
\<close>

fun re_split_acc :: "(char \<Rightarrow> bool) \<Rightarrow> string \<Rightarrow> bool \<Rightarrow> string \<Rightarrow> string list" where
  "re_split_acc sep acc in_sep [] = [rev acc]"
| "re_split_acc sep acc in_sep (c # cs) =
     (if sep c then (if in_sep then re_split_acc sep acc True cs
                     else rev acc # re_split_acc sep [] True cs)
      else re_split_acc sep (c # acc) False cs)"

definition re_split :: "(char \<Rightarrow> bool) \<Rightarrow> string \<Rightarrow> string list" where
  "re_split sep s = re_split_acc sep [] False s"

section \<open>The diagram parser\<close>

record relation =
  left :: string
  connector :: string
  right :: string

text \<open>
  The dictionary \<open>entities\<close> keeps insertion order, which the script relies on when it
  iterates; it is an association list from entity name to column list.
\<close>

type_synonym entities = "(string \<times> string list) list"

text \<open>\<open>entities[k] = v\<close>: an existing key keeps its place, a new key goes last.\<close>

definition set_entity :: "string \<Rightarrow> string list \<Rightarrow> entities \<Rightarrow> entities" where
  "set_entity k v ents =
     (if k \<in> set (map fst ents)
      then map (\<lambda>(n, cs). if n = k then (n, v) else (n, cs)) ents
      else ents @ [(k, v)])"

text \<open>\<open>entities[k].append(c)\<close> for a key that is present.\<close>

definition append_col :: "string \<Rightarrow> string \<Rightarrow> entities \<Rightarrow> entities" where
  "append_col k c ents = map (\<lambda>(n, cs). if n = k then (n, cs @ [c]) else (n, cs)) ents"

record pstate =
  entities :: entities
  relations :: "relation list"
  current :: "string option"

definition is_word :: "char \<Rightarrow> bool" where
  "is_word c = (c \<in> set (upper_letters @ lower_letters @ digit_chars @ ''_''))"

text \<open>\<open>re.match(r'^entity\s+([A-Za-z0-9_]+)', line)\<close>, returning group 1.\<close>

definition match_entity :: "string \<Rightarrow> string option" where
  "match_entity line =
     (if startswith line ''entity'' then
        (let rest = drop 6 line; after = dropWhile is_space rest; name = takeWhile is_word after
         in if after \<noteq> rest \<and> name \<noteq> [] then Some name else None)
      else None)"

text \<open>The relation branch: a line containing \<open>--\<close>, split on whitespace.\<close>

definition parse_relation :: "pstate \<Rightarrow> string \<Rightarrow> pstate" where
  "parse_relation st line =
     (if contains line ''--'' then
        (let parts = re_split is_space line
         in if length parts \<ge> 3
            then st\<lparr>relations := relations st @
                   [\<lparr>left = parts ! 0, connector = parts ! 1, right = parts ! 2\<rparr>]\<rparr>
            else st)
      else st)"

definition parse_line :: "pstate \<Rightarrow> string \<Rightarrow> pstate" where
  "parse_line st raw =
     (let line = strip raw in
      if line = [] \<or> startswith line [CHR 0x27] then st
      else case match_entity line of
        Some n \<Rightarrow> st\<lparr>entities := set_entity n [] (entities st), current := Some n\<rparr>
      | None \<Rightarrow>
         (case current st of
            Some cur \<Rightarrow>
              if startswith line ''}'' then st\<lparr>current := None\<rparr>
              else if CHR '':'' \<in> set line then
                (let col = strip (takeWhile (\<lambda>c. c \<noteq> CHR '':'') line)
                 in if col \<noteq> [] \<and> col \<noteq> ''--''
                    then st\<lparr>entities := append_col cur col (entities st)\<rparr> else st)
              else parse_relation st line
          | None \<Rightarrow> parse_relation st line))"

text \<open>\<open>parse_puml\<close> on the lines of the file, in order.\<close>

definition parse_init :: pstate where
  "parse_init = \<lparr>entities = [], relations = [], current = None\<rparr>"

definition parse_lines :: "pstate \<Rightarrow> string list \<Rightarrow> pstate" where
  "parse_lines st ls = foldl parse_line st ls"

definition parse_puml :: "string list \<Rightarrow> entities \<times> relation list" where
  "parse_puml ls = (let st = parse_lines parse_init ls in (entities st, relations st))"

section \<open>Foreign-key inference\<close>

datatype error = KeyError string | NameError string | OSError string | ValueError string

text \<open>
  \<open>detect_assoc_entities\<close>: the dictionary \<open>degree\<close> is built by one pass over the
  relations, counting each endpoint; \<open>degree.get(ent, 0)\<close> reads it.
\<close>

definition bump :: "(string \<rightharpoonup> nat) \<Rightarrow> string \<Rightarrow> (string \<rightharpoonup> nat)" where
  "bump d k = d(k \<mapsto> (case d k of None \<Rightarrow> 0 | Some n \<Rightarrow> n) + 1)"

definition degree_of :: "relation list \<Rightarrow> (string \<rightharpoonup> nat)" where
  "degree_of rels = foldl (\<lambda>d r. bump (bump d (left r)) (right r)) Map.empty rels"

definition degree_get :: "(string \<rightharpoonup> nat) \<Rightarrow> string \<Rightarrow> nat" where
  "degree_get d ent = (case d ent of None \<Rightarrow> 0 | Some n \<Rightarrow> n)"

definition detect_assoc_entities :: "entities \<Rightarrow> relation list \<Rightarrow> string list" where
  "detect_assoc_entities ents rels =
     (let degree = degree_of rels
      in map fst (filter (\<lambda>(ent, cols). length cols > 0 \<and> degree_get degree ent \<ge> 2) ents))"

definition is_mn :: "string \<Rightarrow> bool" where
  "is_mn conn = (contains conn ''}'' \<and> contains conn ''{'')"

definition is_1n :: "string \<Rightarrow> bool" where
  "is_1n conn = (contains conn ''||--o{'' \<or> contains conn ''|o--o{'')"

text \<open>
  \<open>if fk_col not in entities[ent]: entities[ent].append(fk_col)\<close>; the subscript raises
  \<open>KeyError\<close> when \<open>ent\<close> is not a declared entity.
\<close>

definition add_fk :: "string \<Rightarrow> string \<Rightarrow> entities \<Rightarrow> error + entities" where
  "add_fk ent fk_col ents =
     (case map_of ents ent of
        None \<Rightarrow> Inl (KeyError ent)
      | Some cols \<Rightarrow> Inr (if fk_col \<in> set cols then ents else append_col ent fk_col ents))"

text \<open>The body of the loop over the relations that decides where a foreign key goes.\<close>

definition augment_step :: "string list \<Rightarrow> entities \<Rightarrow> relation \<Rightarrow> error + entities" where
  "augment_step assoc ents r =
     (let l = left r; conn = connector r; rt = right r in
      if is_mn conn then Inr ents
      else if l \<in> set assoc \<or> rt \<in> set assoc then Inr ents
      else if contains conn ''|o--o{'' then add_fk l (lower rt @ ''_id'') ents
      else if contains conn ''||--o{'' then add_fk rt (lower l @ ''_id'') ents
      else if l = ''Document'' \<and> rt \<in> set [''Journal'', ''Event'']
           then add_fk l (lower rt @ ''_id'') ents
      else add_fk rt (lower l @ ''_id'') ents)"

text \<open>
  The loop mutates \<open>entities\<close> in place, so a fault leaves the columns appended so far:
  the result is the dictionary as the loop leaves it, and the fault if there was one.
\<close>

fun augment :: "string list \<Rightarrow> entities \<Rightarrow> relation list \<Rightarrow> entities \<times> error option" where
  "augment assoc ents [] = (ents, None)"
| "augment assoc ents (r # rs) =
     (case augment_step assoc ents r of
        Inl e \<Rightarrow> (ents, Some e)
      | Inr ents' \<Rightarrow> augment assoc ents' rs)"

section \<open>Primary-key sequences\<close>

text \<open>\<open>xs.index(x)\<close>; \<open>None\<close> is the \<open>ValueError\<close> of a missing element.\<close>

fun index :: "'a list \<Rightarrow> 'a \<Rightarrow> nat option" where
  "index [] x = None"
| "index (y # ys) x = (if y = x then Some 0 else map_option Suc (index ys x))"

text \<open>The identifier column \<open>ent_id_col\<close> of an entity, \<open>None\<close> when there is none.\<close>

definition ent_id_col :: "string \<Rightarrow> string list \<Rightarrow> string option" where
  "ent_id_col ent cols =
     (let lowered = map lower cols; candidate = lower ent @ ''_id'' in
      case index lowered candidate of
        Some i \<Rightarrow> Some (cols ! i)
      | None \<Rightarrow> find (\<lambda>c. endswith (lower c) ''_id'') cols)"

text \<open>\<open>range(rows)\<close> is empty for a row count below one.\<close>

definition py_range :: "int \<Rightarrow> nat list" where
  "py_range rows = [0..<nat rows]"

type_synonym pk_values = "(string \<times> int list) list"

definition pk_values_of :: "entities \<Rightarrow> int \<Rightarrow> pk_values" where
  "pk_values_of ents rows =
     map (\<lambda>(ent, cols). (ent, if ent_id_col ent cols \<noteq> None
                               then map (\<lambda>i. int i + 1) (py_range rows) else [])) ents"

section \<open>The random source\<close>

text \<open>
  The module \<open>random\<close> is an oracle: a list of naturals, one consumed by each call
  (an exhausted list goes on with zeros).  Every outcome of \<open>random.randint(a, b)\<close> with
  \<open>a \<le> b\<close> and of \<open>random.choice(xs)\<close> on a non-empty \<open>xs\<close> is the value for some
  oracle, so what holds for every oracle holds on every run.  \<open>random.choice\<close> is only
  called on the constant pools below and on lists the script has tested to be non-empty.
\<close>

type_synonym rng = "nat list"

definition draw :: "rng \<Rightarrow> nat \<times> rng" where
  "draw g = (case g of [] \<Rightarrow> (0, []) | x # g' \<Rightarrow> (x, g'))"

definition randint :: "int \<Rightarrow> int \<Rightarrow> rng \<Rightarrow> int \<times> rng" where
  "randint a b g = (a + int (fst (draw g)) mod (b - a + 1), snd (draw g))"

definition choice :: "'a list \<Rightarrow> rng \<Rightarrow> 'a \<times> rng" where
  "choice xs g = (xs ! (fst (draw g) mod length xs), snd (draw g))"

fun choices :: "nat \<Rightarrow> 'a list \<Rightarrow> rng \<Rightarrow> 'a list \<times> rng" where
  "choices 0 xs g = ([], g)"
| "choices (Suc n) xs g =
     (let (x, g1) = choice xs g; (rest, g2) = choices n xs g1 in (x # rest, g2))"

section \<open>Semantic pools and helpers\<close>

definition DOC_TITLES :: "string list" where
  "DOC_TITLES = [''AI in Education'', ''Knowledge Graphs'', ''Quantum Research'',
     ''Cloud Computing'', ''Open Science'', ''Machine Learning for Healthcare'',
     ''Semantic Web Technologies'', ''Data Science for Policy'']"

definition FIRSTNAMES :: "string list" where
  "FIRSTNAMES = [''Ana'', ''Marko'', ''Jelena'', ''Petar'', ''Ivana'', ''Nikola'', ''Maja'',
     ''Milos'', ''Luka'', ''Sara'']"

definition LASTNAMES :: "string list" where
  "LASTNAMES = [''Petrovic'', ''Garcia'', ''Smith'', ''Ivanov'', ''Chen'', ''Silva'',
     ''Jovanovic'', ''Kovacevic'']"

definition JOURNAL_TITLES :: "string list" where
  "JOURNAL_TITLES = [''AI Review'', ''Information Systems'', ''Data Science Journal'',
     ''Computing Advances'']"

definition EVENT_NAMES :: "string list" where
  "EVENT_NAMES = [''AIConf 2025'', ''Open Science Summit'', ''Quantum Symposium'',
     ''Cloud Expo Europe'']"

definition GEO_NAMES :: "string list" where
  "GEO_NAMES = [''Serbia'', ''Germany'', ''USA'', ''France'', ''Spain'']"

definition GEO_CODES :: "(string \<times> string) list" where
  "GEO_CODES = [(''Serbia'', ''RS''), (''Germany'', ''DE''), (''USA'', ''US''),
     (''France'', ''FR''), (''Spain'', ''ES'')]"

definition GRANT_NAMES :: "string list" where
  "GRANT_NAMES = [''HorizonEurope Project X'', ''National Science Grant Y'',
     ''AI Innovation Programme'', ''Climate Research Initiative'']"

definition INVESTIGATOR_ROLES :: "string list" where
  "INVESTIGATOR_ROLES = [''Principal Investigator'', ''Co-Principal Investigator'',
     ''Investigator'']"

definition ADVISORY_TYPES :: "string list" where
  "ADVISORY_TYPES = [''Advising'', ''Faculty Mentoring'', ''Graduate Advising'',
     ''Postdoc or Fellow Advising'', ''Undergraduate Advising'']"

definition CITATION_SOURCES :: "string list" where
  "CITATION_SOURCES = [''OpenAlex'', ''Web of Science'', ''Scopus'']"

definition POSITION_TYPES :: "string list" where
  "POSITION_TYPES = [''faculty position'', ''non-academic position'']"

definition POSITION_TITLES :: "string list" where
  "POSITION_TITLES = [''full professor'', ''librarian'', ''developer'']"

definition ORG_TYPES :: "string list" where
  "ORG_TYPES = [''Faculty'', ''Research Center'', ''Research Institute'', ''College'', ''NGO'']"

definition ORG_NAMES :: "string list" where
  "ORG_NAMES = [''University of Belgrade'', ''Faculty of Science'', ''Institute of AI'',
     ''Research Center VINCA'', ''Open Data Lab'']"

text \<open>\<open>str(n)\<close> and \<open>"%04d" % n\<close> on integers.\<close>

fun digits :: "nat \<Rightarrow> string" where
  "digits n = (if n < 10 then [digit_chars ! n] else digits (n div 10) @ [digit_chars ! (n mod 10)])"

declare digits.simps [simp del]

definition str_int :: "int \<Rightarrow> string" where
  "str_int i = (if i < 0 then CHR ''-'' # digits (nat (- i)) else digits (nat i))"

definition zfill :: "nat \<Rightarrow> string \<Rightarrow> string" where
  "zfill w s = replicate (w - length s) (CHR ''0'') @ s"

definition fmt_04d :: "int \<Rightarrow> string" where
  "fmt_04d i = (if i < 0 then CHR ''-'' # zfill 3 (digits (nat (- i))) else zfill 4 (digits (nat i)))"

definition block :: "rng \<Rightarrow> string \<times> rng" where
  "block g = (let (n, g1) = randint 0 9999 g in (fmt_04d n, g1))"

definition make_orcid :: "rng \<Rightarrow> string \<times> rng" where
  "make_orcid g =
     (let (b1, g1) = block g; (b2, g2) = block g1; (b3, g3) = block g2; (b4, g4) = block g3
      in (b1 @ ''-'' @ b2 @ ''-'' @ b3 @ ''-'' @ b4, g4))"

definition make_issn :: "rng \<Rightarrow> string \<times> rng" where
  "make_issn g =
     (let (a, g1) = randint 1000 9999 g; (b, g2) = randint 1000 9999 g1
      in (fmt_04d a @ ''-'' @ fmt_04d b, g2))"

definition make_ror :: "rng \<Rightarrow> string \<times> rng" where
  "make_ror g =
     (let (suffix, g1) = choices 9 (digit_chars @ lower_letters) g
      in (''https://ror.org/'' @ suffix, g1))"

definition make_abbrev :: "string \<Rightarrow> string" where
  "make_abbrev name =
     (let parts = re_split (\<lambda>c. is_space c \<or> c = CHR ''_'' \<or> c = CHR ''-'') name in
      if length parts = 1 then upper (take 4 name)
      else take 6 (concat (map (\<lambda>p. [upper_char (hd p)]) (filter (\<lambda>p. p \<noteq> []) parts))))"

section \<open>Cell values and the synthesis environment\<close>

text \<open>
  A cell holds an integer, a string or, for a grant amount, a floating-point number.
  The amount \<open>round(random.uniform(0.5, 5.0), 2) * 1_000_000\<close> is kept as the number of
  hundredths of a million that was drawn (between 50 and 500); floating-point rounding
  is outside the model.
\<close>

datatype val = VInt int | VStr string | VFloat int

definition vint :: "int \<times> rng \<Rightarrow> val \<times> rng" where
  "vint p = (VInt (fst p), snd p)"

definition vstr :: "string \<times> rng \<Rightarrow> val \<times> rng" where
  "vstr p = (VStr (fst p), snd p)"

text \<open>
  \<open>str(v)\<close> and \<open>int(v)\<close> on a cell.  The script applies them to cells that always hold
  integers (the advisor of an advisorship, the first page of a document); \<open>int\<close> of
  anything else is taken as the \<open>ValueError\<close> that the script catches.
\<close>

definition py_str :: "val \<Rightarrow> string" where
  "py_str v = (case v of VInt i \<Rightarrow> str_int i | VStr s \<Rightarrow> s
               | VFloat h \<Rightarrow> str_int (h * 10000) @ ''.0'')"

definition py_int :: "val \<Rightarrow> int option" where
  "py_int v = (case v of VInt i \<Rightarrow> Some i | _ \<Rightarrow> None)"

record person =
  person_id :: int
  firstname :: string
  lastname :: string
  other_name :: string
  orcid :: string

type_synonym persons = "string \<rightharpoonup> person"

record env =
  env_pk :: pk_values
  env_persons :: persons
  env_rows :: int

text \<open>The registry of persons, one entry per primary key of \<open>Person\<close>.\<close>

fun gen_persons :: "int list \<Rightarrow> persons \<Rightarrow> rng \<Rightarrow> persons \<times> rng" where
  "gen_persons [] ps g = (ps, g)"
| "gen_persons (pid # pids) ps g =
     (let (fn, g1) = choice FIRSTNAMES g;
          (ln, g2) = choice LASTNAMES g1;
          (other, g3) = choice FIRSTNAMES g2;
          (oid, g4) = make_orcid g3
      in gen_persons pids
           (ps(str_int pid \<mapsto> \<lparr>person_id = pid, firstname = fn, lastname = ln,
                                 other_name = other, orcid = oid\<rparr>)) g4)"

definition pregenerate_persons :: "entities \<Rightarrow> pk_values \<Rightarrow> rng \<Rightarrow> persons \<times> rng" where
  "pregenerate_persons ents pkv g =
     (if ''Person'' \<in> set (map fst ents)
      then gen_persons (case map_of pkv ''Person'' of Some vals \<Rightarrow> vals | None \<Rightarrow> [1])
             Map.empty g
      else (Map.empty, g))"

text \<open>\<open>pick_pk\<close>: an existing primary key of an entity, or a small random integer.\<close>

definition pick_pk :: "env \<Rightarrow> string \<Rightarrow> rng \<Rightarrow> int \<times> rng" where
  "pick_pk env ent g =
     (case map_of (env_pk env) ent of
        Some vals \<Rightarrow> if vals \<noteq> [] then choice vals g
                     else randint 1 (max 1 (env_rows env)) g
      | None \<Rightarrow> randint 1 (max 1 (env_rows env)) g)"

fun pick_pk_for_ref :: "pk_values \<Rightarrow> string \<Rightarrow> int \<Rightarrow> rng \<Rightarrow> int \<times> rng" where
  "pick_pk_for_ref [] ref rows g = randint 1 (max 1 rows) g"
| "pick_pk_for_ref ((k, vals) # rest) ref rows g =
     (if lower k = lower ref \<and> vals \<noteq> [] then choice vals g
      else pick_pk_for_ref rest ref rows g)"

definition synth_generic_value :: "string \<Rightarrow> rng \<Rightarrow> val \<times> rng" where
  "synth_generic_value col_lower g =
     (if contains col_lower ''name'' then vstr (choice (ORG_NAMES @ FIRSTNAMES) g)
      else if contains col_lower ''title'' then vstr (choice DOC_TITLES g)
      else if contains col_lower ''doi'' then
        (let (a, g1) = randint 100 999 g; (b, g2) = randint 1000 9999 g1
         in (VStr (''10.'' @ str_int a @ ''/'' @ str_int b), g2))
      else if contains col_lower ''issn'' then vstr (make_issn g)
      else if contains col_lower ''isbn'' then
        (let (n, g1) = randint 1000000000 9999999999 g in (VStr (str_int n), g1))
      else if contains col_lower ''page'' \<or> contains col_lower ''volume''
              \<or> contains col_lower ''issue'' then vint (randint 1 200 g)
      else (let (n, g1) = randint 1 100 g in (VStr (col_lower @ ''_'' @ str_int n), g1)))"

section \<open>The rules of row synthesis\<close>

text \<open>
  Inside the loop over the columns every rule of the script has the shape
  \<open>if condition: row.append(value); continue\<close>.  A rule is a function that returns
  \<open>None\<close> when its condition does not hold (control falls through to the next rule) and
  otherwise the appended value with the rest of the oracle, or the fault raised.  The
  rules are listed in the order of the script; \<open>cl\<close> is the lower-cased column name and
  \<open>row\<close> the cells of the row appended so far.
\<close>

type_synonym cell = "(error + val \<times> rng) option"

definition rule_pk :: "env \<Rightarrow> string \<Rightarrow> nat \<Rightarrow> string \<Rightarrow> rng \<Rightarrow> cell" where
  "rule_pk env ent idx cl g =
     (case map_of (env_pk env) ent of
        Some vals \<Rightarrow>
          if cl = lower ent @ ''_id'' \<and> vals \<noteq> []
          then Some (Inr (VInt (vals ! (idx mod length vals)), g)) else None
      | None \<Rightarrow> None)"

definition rule_authorship :: "env \<Rightarrow> string \<Rightarrow> string \<Rightarrow> rng \<Rightarrow> cell" where
  "rule_authorship env ent cl g =
     (if ent = ''Authorship'' \<and> cl = ''display_author_name'' then
        (let (pid, g1) = pick_pk env ''Person'' g in
         case env_persons env (str_int pid) of
           Some p \<Rightarrow> Some (Inr (VStr (firstname p @ '' '' @ lastname p), g1))
         | None \<Rightarrow>
             (let (fn, g2) = choice FIRSTNAMES g1; (ln, g3) = choice LASTNAMES g2
              in Some (Inr (VStr (fn @ '' '' @ ln), g3))))
      else None)"

definition rule_citations :: "string \<Rightarrow> string \<Rightarrow> rng \<Rightarrow> cell" where
  "rule_citations ent cl g =
     (if ent = ''Citations'' \<and> cl \<in> set [''source'', ''citation_source'']
        then Some (Inr (vstr (choice CITATION_SOURCES g)))
      else if ent = ''Citations'' \<and> cl \<in> set [''number'', ''citation_number'']
        then Some (Inr (vint (randint 1 500 g)))
      else None)"

text \<open>
  The first page already written in this row: the cell at the first column named
  \<open>page_start\<close>, when that column comes earlier in the row.
\<close>

definition page_start_val :: "string list \<Rightarrow> val list \<Rightarrow> int option" where
  "page_start_val cols row =
     (case index (map lower cols) ''page_start'' of
        None \<Rightarrow> None
      | Some ps_idx \<Rightarrow> if ps_idx < length row then py_int (row ! ps_idx) else None)"

definition rule_document :: "string \<Rightarrow> string list \<Rightarrow> string \<Rightarrow> val list \<Rightarrow> rng \<Rightarrow> cell" where
  "rule_document ent cols cl row g =
     (if ent = ''Document'' \<and> cl = ''page_start'' then Some (Inr (vint (randint 1 200 g)))
      else if ent = ''Document'' \<and> cl = ''page_end'' then
        (case page_start_val cols row of
           Some start_val \<Rightarrow>
             (let (k, g1) = randint 1 30 g in Some (Inr (VInt (start_val + k), g1)))
         | None \<Rightarrow> Some (Inr (vint (randint 2 400 g))))
      else None)"

text \<open>The advisor already written in this row, if its column comes earlier.\<close>

definition advisor_val :: "string list \<Rightarrow> val list \<Rightarrow> val option" where
  "advisor_val cols row =
     (case index (map lower cols) ''advisor_person_id'' of
        None \<Rightarrow> None
      | Some aidx \<Rightarrow> if aidx < length row then Some (row ! aidx) else None)"

text \<open>The bounded resampling loop; the first argument is \<open>10 - attempts\<close>.\<close>

fun resample_student :: "nat \<Rightarrow> env \<Rightarrow> val option \<Rightarrow> int \<Rightarrow> rng \<Rightarrow> int \<times> rng" where
  "resample_student 0 env adv s g = (s, g)"
| "resample_student (Suc n) env adv s g =
     (case adv of
        None \<Rightarrow> (s, g)
      | Some a \<Rightarrow>
          if str_int s = py_str a
          then (let (s', g1) = pick_pk env ''Person'' g in resample_student n env adv s' g1)
          else (s, g))"

definition rule_advisorship :: "env \<Rightarrow> string \<Rightarrow> string list \<Rightarrow> string \<Rightarrow> val list \<Rightarrow> rng \<Rightarrow> cell" where
  "rule_advisorship env ent cols cl row g =
     (if ent = ''Advisorship'' then
        if ''advisor_person_id'' \<in> set (map lower cols) \<and> cl = ''advisor_person_id''
          then Some (Inr (vint (pick_pk env ''Person'' g)))
        else if ''student_person_id'' \<in> set (map lower cols) \<and> cl = ''student_person_id''
          then (let (s, g1) = pick_pk env ''Person'' g
                in Some (Inr (vint (resample_student 10 env (advisor_val cols row) s g1))))
        else if cl = ''advising_relationship_type''
          then Some (Inr (vstr (choice ADVISORY_TYPES g)))
        else None
      else None)"

definition rule_event :: "string \<Rightarrow> string \<Rightarrow> rng \<Rightarrow> cell" where
  "rule_event ent cl g =
     (if ent = ''Event'' \<and> cl = ''name'' then Some (Inr (vstr (choice EVENT_NAMES g)))
      else None)"

definition rule_geolocation :: "string \<Rightarrow> string \<Rightarrow> rng \<Rightarrow> cell" where
  "rule_geolocation ent cl g =
     (if ent = ''Geolocation'' then
        if cl = ''name'' then Some (Inr (vstr (choice GEO_NAMES g)))
        else if cl = ''code'' then
          (let (name, g1) = choice GEO_NAMES g
           in Some (Inr (VStr (case map_of GEO_CODES name of Some code \<Rightarrow> code
                                                             | None \<Rightarrow> ''XX''), g1)))
        else None
      else None)"

definition rule_grant :: "string \<Rightarrow> string \<Rightarrow> rng \<Rightarrow> cell" where
  "rule_grant ent cl g =
     (if ent = ''Grant'' \<and> cl = ''name'' then Some (Inr (vstr (choice GRANT_NAMES g)))
      else if ent = ''Grant'' \<and> cl = ''total_award_amount'' then
        (let (h, g1) = randint 50 500 g in Some (Inr (VFloat h, g1)))
      else None)"

definition rule_role :: "string \<Rightarrow> string \<Rightarrow> rng \<Rightarrow> cell" where
  "rule_role ent cl g =
     (if lower ent = ''investigatorship''
         \<or> (ent = ''Contributorship''
             \<and> cl \<in> set [''roletype'', lower ''roletype'', lower ''roleType''])
      then (if contains cl ''role'' then Some (Inr (vstr (choice INVESTIGATOR_ROLES g)))
            else None)
      else None)"

definition rule_journal :: "string \<Rightarrow> string \<Rightarrow> rng \<Rightarrow> cell" where
  "rule_journal ent cl g =
     (if ent = ''Journal'' then
        if cl = ''title'' then Some (Inr (vstr (choice JOURNAL_TITLES g)))
        else if cl = ''abbreviation'' then
          (let (t, g1) = choice JOURNAL_TITLES g in Some (Inr (VStr (make_abbrev t), g1)))
        else if cl = ''issn'' then Some (Inr (vstr (make_issn g)))
        else None
      else None)"

definition rule_organisation :: "string \<Rightarrow> string \<Rightarrow> rng \<Rightarrow> cell" where
  "rule_organisation ent cl g =
     (if ent = ''OrganisationUnit'' then
        if cl = ''abbreviation'' then
          (let (n, g1) = choice ORG_NAMES g in Some (Inr (VStr (make_abbrev n), g1)))
        else if cl = ''ror'' then Some (Inr (vstr (make_ror g)))
        else if cl = ''type'' then Some (Inr (vstr (choice ORG_TYPES g)))
        else None
      else None)"

text \<open>
  The script never defines \<open>PREFERRED_TITLES\<close> and \<open>PERSON_TYPES\<close>: evaluating either
  name raises \<open>NameError\<close>.
\<close>

definition rule_person :: "string \<Rightarrow> string \<Rightarrow> rng \<Rightarrow> cell" where
  "rule_person ent cl g =
     (if ent = ''Person'' then
        if cl = ''other_name'' then Some (Inr (vstr (choice FIRSTNAMES g)))
        else if cl = ''preferred_title'' then Some (Inl (NameError ''PREFERRED_TITLES''))
        else if cl = ''orcid'' then Some (Inr (vstr (make_orcid g)))
        else if cl = ''type'' then Some (Inl (NameError ''PERSON_TYPES''))
        else None
      else None)"

definition rule_position :: "string \<Rightarrow> string \<Rightarrow> rng \<Rightarrow> cell" where
  "rule_position ent cl g =
     (if ent = ''Position'' \<and> cl = ''type'' then Some (Inr (vstr (choice POSITION_TYPES g)))
      else if ent = ''Position'' \<and> cl = ''title''
        then Some (Inr (vstr (choice POSITION_TITLES g)))
      else None)"

definition rule_year :: "string \<Rightarrow> rng \<Rightarrow> cell" where
  "rule_year cl g =
     (if cl \<in> set [''publication_year'', ''start_year'', ''end_year'']
      then Some (Inr (vint (randint 1990 2025 g))) else None)"

definition rule_fk :: "env \<Rightarrow> string \<Rightarrow> rng \<Rightarrow> cell" where
  "rule_fk env cl g =
     (if endswith cl ''_id''
      then (let ref = take (length cl - 3) cl
            in Some (Inr (vint (pick_pk_for_ref (env_pk env) ref (env_rows env) g))))
      else None)"

fun first_rule :: "cell list \<Rightarrow> cell" where
  "first_rule [] = None"
| "first_rule (None # rs) = first_rule rs"
| "first_rule (Some res # rs) = Some res"

text \<open>One cell: the first rule that applies, else the generic value.\<close>

definition gen_cell :: "env \<Rightarrow> string \<Rightarrow> string list \<Rightarrow> nat \<Rightarrow> val list \<Rightarrow> string \<Rightarrow> rng
                         \<Rightarrow> error + val \<times> rng" where
  "gen_cell env ent cols idx row c g =
     (let cl = lower c in
      case first_rule
             [rule_pk env ent idx cl g,
              rule_authorship env ent cl g,
              rule_citations ent cl g,
              rule_document ent cols cl row g,
              rule_advisorship env ent cols cl row g,
              rule_event ent cl g,
              rule_geolocation ent cl g,
              rule_grant ent cl g,
              rule_role ent cl g,
              rule_journal ent cl g,
              rule_organisation ent cl g,
              rule_person ent cl g,
              rule_position ent cl g,
              rule_year cl g,
              rule_fk env cl g] of
        Some res \<Rightarrow> res
      | None \<Rightarrow> Inr (synth_generic_value cl g))"

text \<open>The loop over the columns of one row; the third list is the columns still to fill.\<close>

fun gen_row :: "env \<Rightarrow> string \<Rightarrow> string list \<Rightarrow> nat \<Rightarrow> string list \<Rightarrow> val list \<Rightarrow> rng
                  \<Rightarrow> error + val list \<times> rng" where
  "gen_row env ent cols idx [] row g = Inr (row, g)"
| "gen_row env ent cols idx (c # cs) row g =
     (case gen_cell env ent cols idx row c g of
        Inl e \<Rightarrow> Inl e
      | Inr (v, g1) \<Rightarrow> gen_row env ent cols idx cs (row @ [v]) g1)"

fun gen_rows :: "env \<Rightarrow> string \<Rightarrow> string list \<Rightarrow> nat list \<Rightarrow> rng
                   \<Rightarrow> error + val list list \<times> rng" where
  "gen_rows env ent cols [] g = Inr ([], g)"
| "gen_rows env ent cols (idx # idxs) g =
     (case gen_row env ent cols idx cols [] g of
        Inl e \<Rightarrow> Inl e
      | Inr (row, g1) \<Rightarrow>
          (case gen_rows env ent cols idxs g1 of
             Inl e \<Rightarrow> Inl e
           | Inr (others, g2) \<Rightarrow> Inr (row # others, g2)))"

section \<open>The files written\<close>

text \<open>
  A CSV file is its name inside the output directory, its header row and its data rows.
  The run is the list of files in the order they are written, or the fault that ended
  it (the files written before a fault are not part of the result).
\<close>

record csv_file =
  fname :: string
  header :: "string list"
  data_rows :: "val list list"

fun write_entities :: "env \<Rightarrow> entities \<Rightarrow> rng \<Rightarrow> error + csv_file list \<times> rng" where
  "write_entities env [] g = Inr ([], g)"
| "write_entities env ((ent, cols) # rest) g =
     (case gen_rows env ent cols (py_range (env_rows env)) g of
        Inl e \<Rightarrow> Inl e
      | Inr (rs, g1) \<Rightarrow>
          (case write_entities env rest g1 of
             Inl e \<Rightarrow> Inl e
           | Inr (fs, g2) \<Rightarrow>
               Inr (\<lparr>fname = lower ent @ ''.csv'', header = cols, data_rows = rs\<rparr> # fs, g2)))"

text \<open>
  Opening a file for writing.  The name of an entity file is the lower-cased entity name,
  which the parser takes from \<open>[A-Za-z0-9_]+\<close>; such a file lies directly in the output
  directory and the model takes it to open.  The name of a join file is built from the
  two endpoint tokens of a relation line, which nothing validates.  \<open>open\<close> raises
  \<open>ValueError\<close> on a name with a null character; a name with a \<open>/\<close> has a directory
  part, and whether it opens (or raises \<open>FileNotFoundError\<close> or another \<open>OSError\<close>) is up
  to the file system: the output directory is given by the set of such names that it
  lets the script open.
\<close>

type_synonym directory = "string \<Rightarrow> bool"

definition open_fault :: "directory \<Rightarrow> string \<Rightarrow> error option" where
  "open_fault out_dir name =
     (if CHR 0x00 \<in> set name then Some (ValueError name)
      else if CHR ''/'' \<in> set name \<and> \<not> out_dir name then Some (OSError name)
      else None)"

text \<open>\<open>pk_values.get(ent) or [1]\<close>.\<close>

definition vals_or_one :: "pk_values \<Rightarrow> string \<Rightarrow> int list" where
  "vals_or_one pkv ent =
     (case map_of pkv ent of Some vals \<Rightarrow> if vals \<noteq> [] then vals else [1] | None \<Rightarrow> [1])"

text \<open>
  The padding loop \<open>while len(pairs) < rows\<close> appends one pair per turn; the first
  argument is the number of turns.
\<close>

fun pad_pairs :: "nat \<Rightarrow> int list \<Rightarrow> int list \<Rightarrow> rng \<Rightarrow> (int \<times> int) list \<times> rng" where
  "pad_pairs 0 left_vals right_vals g = ([], g)"
| "pad_pairs (Suc n) left_vals right_vals g =
     (let (a, g1) = choice left_vals g;
          (b, g2) = choice right_vals g1;
          (others, g3) = pad_pairs n left_vals right_vals g2
      in ((a, b) # others, g3))"

text \<open>The slice \<open>xs[:n]\<close>; a negative \<open>n\<close> counts from the end.\<close>

definition slice_to :: "int \<Rightarrow> 'a list \<Rightarrow> 'a list" where
  "slice_to n xs = (if 0 \<le> n then take (nat n) xs else take (nat (int (length xs) + n)) xs)"

definition join_pairs :: "int list \<Rightarrow> int list \<Rightarrow> int \<Rightarrow> rng \<Rightarrow> (int \<times> int) list \<times> rng" where
  "join_pairs left_vals right_vals rows g =
     (let minlen = min (length left_vals) (length right_vals);
          pairs = map (\<lambda>i. (left_vals ! (i mod length left_vals),
                              right_vals ! (i mod length right_vals))) [0..<minlen];
          (padding, g1) = pad_pairs (nat (rows - int (length pairs))) left_vals right_vals g
      in (slice_to rows (pairs @ padding), g1))"

definition join_name :: "relation \<Rightarrow> string" where
  "join_name r = lower (left r) @ ''_'' @ lower (right r) @ ''.csv''"

fun write_joins :: "directory \<Rightarrow> pk_values \<Rightarrow> int \<Rightarrow> relation list \<Rightarrow> rng
                      \<Rightarrow> error + csv_file list \<times> rng" where
  "write_joins out_dir pkv rows [] g = Inr ([], g)"
| "write_joins out_dir pkv rows (r # rs) g =
     (if is_mn (connector r) then
        (case open_fault out_dir (join_name r) of
           Some e \<Rightarrow> Inl e
         | None \<Rightarrow>
            (let (pairs, g1) =
                   join_pairs (vals_or_one pkv (left r)) (vals_or_one pkv (right r)) rows g
             in case write_joins out_dir pkv rows rs g1 of
                  Inl e \<Rightarrow> Inl e
                | Inr (fs, g2) \<Rightarrow>
                    Inr (\<lparr>fname = join_name r,
                          header = [lower (left r) @ ''_id'', lower (right r) @ ''_id''],
                          data_rows = map (\<lambda>(a, b). [VInt a, VInt b]) pairs\<rparr> # fs, g2)))
      else write_joins out_dir pkv rows rs g)"

section \<open>The whole run\<close>

definition generate_csvs :: "entities \<Rightarrow> relation list \<Rightarrow> directory \<Rightarrow> int \<Rightarrow> rng
                              \<Rightarrow> error + csv_file list" where
  "generate_csvs ents rels out_dir rows g =
     (let assoc = detect_assoc_entities ents rels in
      case augment assoc ents rels of
        (_, Some e) \<Rightarrow> Inl e
      | (ents1, None) \<Rightarrow>
          (let pkv = pk_values_of ents1 rows;
               (ps, g1) = pregenerate_persons ents1 pkv g;
               env = \<lparr>env_pk = pkv, env_persons = ps, env_rows = rows\<rparr>
           in case write_entities env ents1 g1 of
                Inl e \<Rightarrow> Inl e
              | Inr (fs, g2) \<Rightarrow>
                  (case write_joins out_dir pkv rows rels g2 of
                     Inl e \<Rightarrow> Inl e
                   | Inr (js, g3) \<Rightarrow> Inr (fs @ js))))"

text \<open>The script run on the lines of a diagram.\<close>

definition main :: "string list \<Rightarrow> directory \<Rightarrow> int \<Rightarrow> rng \<Rightarrow> error + csv_file list" where
  "main ls out_dir rows g =
     (let (ents, rels) = parse_puml ls in generate_csvs ents rels out_dir rows g)"

section \<open>Notions used in the statements\<close>

text \<open>
  The relationship degree of an entity as the specification words it: the number of
  edges it is the left endpoint of plus the number it is the right endpoint of.
\<close>

definition endpoint_count :: "relation list \<Rightarrow> string \<Rightarrow> nat" where
  "endpoint_count rels e =
     length (filter (\<lambda>r. left r = e) rels) + length (filter (\<lambda>r. right r = e) rels)"

text \<open>
  The entities as the foreign-key loop leaves them, and the fault that stopped the loop,
  if any; and the same for a diagram given by its lines.
\<close>

definition augmented :: "entities \<Rightarrow> relation list \<Rightarrow> entities" where
  "augmented ents rels = fst (augment (detect_assoc_entities ents rels) ents rels)"

definition augment_fault :: "entities \<Rightarrow> relation list \<Rightarrow> error option" where
  "augment_fault ents rels = snd (augment (detect_assoc_entities ents rels) ents rels)"

definition final_entities :: "string list \<Rightarrow> entities" where
  "final_entities ls = (let (ents, rels) = parse_puml ls in augmented ents rels)"

text \<open>Two parser states that agree on the open entity and on the columns of \<open>n\<close>.\<close>

definition agree :: "string \<Rightarrow> pstate \<Rightarrow> pstate \<Rightarrow> bool" where
  "agree n s t = (current s = current t \<and> map_of (entities s) n = map_of (entities t) n)"

text \<open>An output directory without subdirectories: no name with a directory part opens.\<close>

definition fresh_dir :: directory where
  "fresh_dir name = False"

subsection \<open>Example diagrams\<close>

definition scenario_diagram :: "string list" where
  "scenario_diagram =
     [''entity Person {'', ''  person_id: int'', ''}'',
      ''entity Document {'', ''  document_id: int'', ''}'',
      ''Document ||--o{ Person'']"

definition dup_diagram :: "string list" where
  "dup_diagram = [''entity A {'', ''  x : int'', ''  x : int'', ''}'']"

definition reopen_diagram :: "string list" where
  "reopen_diagram =
     [''entity A {'', ''  x : int'', ''}'', ''entity A {'', ''  y : int'', ''}'']"

definition authorship_diagram :: "string list" where
  "authorship_diagram =
     [''entity Person {'', ''  person_id: int'', ''}'',
      ''entity Document {'', ''  document_id: int'', ''}'',
      ''entity Authorship {'', ''  rank: int'', ''}'',
      ''Person ||--o{ Authorship'',
      ''Document ||--o{ Authorship'']"

definition role_diagram :: "string list" where
  "role_diagram =
     [''entity Role {'', ''  role_id: int'', ''}'',
      ''entity Investigatorship {'', ''  investigatorship_id: int'', ''}'',
      ''Role ||--o{ Investigatorship'']"

definition pages_diagram :: "string list" where
  "pages_diagram =
     [''entity Document {'', ''  Page_Start: int'', ''  page_start: int'',
      ''  page_end: int'', ''}'']"

definition mn_ents :: entities where
  "mn_ents = [(''A'', [''a_id'']), (''B'', [''name''])]"

definition mn_rels :: "relation list" where
  "mn_rels = [\<lparr>left = ''A'', connector = ''}o--o{'', right = ''B''\<rparr>]"

definition document_diagram :: "string list" where
  "document_diagram =
     [''entity Document {'', ''  document_id: int'', ''  page_start: int'',
      ''  page_end: int'', ''}'']"

definition scenario_ents :: entities where
  "scenario_ents = [(''Person'', [''person_id'']), (''Document'', [''document_id''])]"

definition scenario_rels :: "relation list" where
  "scenario_rels = [\<lparr>left = ''Document'', connector = ''||--o{'', right = ''Person''\<rparr>]"

text \<open>The files of the scenario for three rows when the oracle only gives zeros.\<close>

definition scenario_files :: "csv_file list" where
  "scenario_files =
     [\<lparr>fname = ''person.csv'', header = [''person_id'', ''document_id''],
        data_rows = [[VInt 1, VInt 1], [VInt 2, VInt 1], [VInt 3, VInt 1]]\<rparr>,
      \<lparr>fname = ''document.csv'', header = [''document_id''],
        data_rows = [[VInt 1], [VInt 2], [VInt 3]]\<rparr>]"

definition document_ents :: entities where
  "document_ents = [(''Document'', [''document_id'', ''page_start'', ''page_end''])]"

definition document_files :: "csv_file list" where
  "document_files =
     [\<lparr>fname = ''document.csv'', header = [''document_id'', ''page_start'', ''page_end''],
        data_rows = [[VInt 1, VInt 1, VInt 2], [VInt 2, VInt 1, VInt 2]]\<rparr>]"

definition fallback_diagram :: "string list" where
  "fallback_diagram = [''entity Foo {'', ''  bar_id: int'', ''}'']"

definition mn_diagram :: "string list" where
  "mn_diagram =
     [''entity A {'', ''  a_id: int'', ''}'',
      ''entity B {'', ''  name: string'', ''}'',
      ''A }o--o{ B'']"



text \<open>The file of an entity, and of a many-to-many edge, that has a header and no rows.\<close>

definition empty_entity_file :: "string \<times> string list \<Rightarrow> csv_file" where
  "empty_entity_file p = \<lparr>fname = lower (fst p) @ ''.csv'', header = snd p, data_rows = []\<rparr>"

definition empty_join_file :: "relation \<Rightarrow> csv_file" where
  "empty_join_file r =
     \<lparr>fname = join_name r,
      header = [lower (left r) @ ''_id'', lower (right r) @ ''_id''], data_rows = []\<rparr>"

section \<open>Properties of the parser\<close>

lemma map_of_append_col:
  "map_of (append_col k c ents) x =
     (if x = k then map_option (\<lambda>cs. cs @ [c]) (map_of ents x) else map_of ents x)"
  by (induction ents) (auto simp: append_col_def)

lemma map_of_replace:
  "map_of (map (\<lambda>(n, cs). if n = k then (n, v) else (n, cs)) ents) x =
     (if x = k then map_option (\<lambda>_. v) (map_of ents x) else map_of ents x)"
  by (induction ents) auto

lemma map_of_set_entity:
  "map_of (set_entity k v ents) x = (if x = k then Some v else map_of ents x)"
proof (cases "k \<in> set (map fst ents)")
  case True
  then obtain w where "map_of ents k = Some w"
    by (metis map_of_eq_None_iff not_Some_eq set_map)
  with True show ?thesis by (simp add: set_entity_def map_of_replace)
next
  case False
  then have "map_of ents k = None" by (simp add: map_of_eq_None_iff)
  with False show ?thesis by (auto simp: set_entity_def map_add_def split: option.splits)
qed

lemma match_entity_line:
  assumes "match_entity line = Some n"
  shows "line \<noteq> [] \<and> \<not> startswith line [CHR 0x27]"
  using assms by (cases line) (auto simp: match_entity_def startswith_def split: if_splits)

lemma parse_line_open:
  assumes "match_entity (strip raw) = Some n"
  shows "parse_line st raw = st\<lparr>entities := set_entity n [] (entities st), current := Some n\<rparr>"
  using assms match_entity_line[OF assms] by (simp add: parse_line_def Let_def)

lemma parse_relation_agree:
  "agree n s t \<Longrightarrow> agree n (parse_relation s line) (parse_relation t line)"
  by (simp add: agree_def parse_relation_def Let_def)

lemma parse_line_agree: "agree n s t \<Longrightarrow> agree n (parse_line s raw) (parse_line t raw)"
  using parse_relation_agree[of n s t "strip raw"]
  by (auto simp: agree_def parse_line_def Let_def map_of_set_entity map_of_append_col
           split: option.splits)

lemma parse_lines_agree: "agree n s t \<Longrightarrow> agree n (parse_lines s ls) (parse_lines t ls)"
  unfolding parse_lines_def
  by (induction ls arbitrary: s t) (auto intro: parse_line_agree)

text \<open>
  Claim C10.  An entity-opening line for the name \<open>n\<close>, met in any parser state, leaves
  the column list of \<open>n\<close> empty; and the columns that the parser finally reports for
  \<open>n\<close> are those it would report if the diagram began at that line: whatever an earlier
  block of the same name had collected is gone from the output mapping.
\<close>

theorem reopen_discards_columns:
  assumes "match_entity (strip raw) = Some n"
  shows "map_of (entities (parse_line st raw)) n = Some []
       \<and> map_of (fst (parse_puml (pre @ raw # post))) n
           = map_of (fst (parse_puml (raw # post))) n"
proof -
  have a: "agree n (parse_line (parse_lines parse_init pre) raw) (parse_line parse_init raw)"
    by (simp add: parse_line_open[OF assms] agree_def map_of_set_entity)
  have "agree n (parse_lines parse_init (pre @ raw # post)) (parse_lines parse_init (raw # post))"
    using parse_lines_agree[OF a, of post] by (simp add: parse_lines_def)
  then show ?thesis
    by (simp add: parse_puml_def Let_def agree_def parse_line_open[OF assms] map_of_set_entity)
qed

theorem reopen_discards_columns_witness:
  "match_entity (strip ''entity A {'') = Some ''A''
   \<and> map_of (fst (parse_puml reopen_diagram)) ''A'' = Some [''y'']
   \<and> map_of (fst (parse_puml (take 3 reopen_diagram))) ''A'' = Some [''x'']"
proof -
  have h: "match_entity (strip ''entity A {'') = Some ''A''" by code_simp
  have d: "reopen_diagram
           = [''entity A {'', ''  x : int'', ''}''] @ ''entity A {'' # [''  y : int'', ''}'']"
    by (simp add: reopen_diagram_def)
  have e: "map_of (fst (parse_puml (''entity A {'' # [''  y : int'', ''}'']))) ''A'' = Some [''y'']"
    by code_simp
  have f: "map_of (fst (parse_puml (take 3 reopen_diagram))) ''A'' = Some [''x'']"
    by code_simp
  show ?thesis
    using h e f reopen_discards_columns[OF h, of parse_init
            "[''entity A {'', ''  x : int'', ''}'']" "[''  y : int'', ''}'']"]
    unfolding d by simp
qed

section \<open>Properties of foreign-key inference\<close>

lemma degree_get_bump: "degree_get (bump d k) e = degree_get d e + (if k = e then 1 else 0)"
  by (simp add: degree_get_def bump_def)

lemma degree_get_foldl:
  "degree_get (foldl (\<lambda>d r. bump (bump d (left r)) (right r)) d rels) e
     = degree_get d e + endpoint_count rels e"
  by (induction rels arbitrary: d) (simp_all add: endpoint_count_def degree_get_bump)

lemma degree_get_degree_of: "degree_get (degree_of rels) e = endpoint_count rels e"
  by (simp add: degree_of_def degree_get_foldl) (simp add: degree_get_def)

lemma in_detect_assoc:
  "e \<in> set (detect_assoc_entities ents rels)
     \<longleftrightarrow> (\<exists>cols. (e, cols) \<in> set ents \<and> cols \<noteq> [] \<and> 2 \<le> endpoint_count rels e)"
  by (force simp: detect_assoc_entities_def Let_def degree_get_degree_of)

lemma add_fk_other:
  "add_fk k c ents = Inr ents' \<Longrightarrow> e \<noteq> k \<Longrightarrow> map_of ents' e = map_of ents e"
  by (auto simp: add_fk_def map_of_append_col split: option.splits if_splits)

lemma augment_step_assoc:
  "augment_step assoc ents r = Inr ents' \<Longrightarrow> e \<in> set assoc \<Longrightarrow> map_of ents' e = map_of ents e"
  unfolding augment_step_def Let_def
  by (auto split: if_splits dest: add_fk_other[where e = e])

lemma augment_assoc:
  "e \<in> set assoc \<Longrightarrow> map_of (fst (augment assoc ents rels)) e = map_of ents e"
proof (induction rels arbitrary: ents)
  case Nil
  show ?case by simp
next
  case (Cons r rels)
  show ?case
  proof (cases "augment_step assoc ents r")
    case (Inl err)
    then show ?thesis by simp
  next
    case (Inr ents')
    then show ?thesis
      using Cons.IH[OF Cons.prems, of ents'] augment_step_assoc[OF Inr Cons.prems] by simp
  qed
qed

text \<open>
  Claim C5.  An entity with at least one declared attribute and relationship degree at
  least two (one per endpoint occurrence over all edges) has, in the dictionary as the
  foreign-key loop leaves it, exactly the columns it was declared with: the loop never
  appends a column to it, whether it runs to the end or stops at a fault.
\<close>

theorem assoc_entity_gets_no_fk:
  assumes "map_of ents e = Some cols" and "cols \<noteq> []" and "2 \<le> endpoint_count rels e"
  shows "map_of (fst (augment (detect_assoc_entities ents rels) ents rels)) e = Some cols"
proof -
  have "(e, cols) \<in> set ents" using assms(1) by (rule map_of_SomeD)
  then have "e \<in> set (detect_assoc_entities ents rels)"
    using assms(2,3) by (auto simp: in_detect_assoc)
  then show ?thesis using assms(1) by (simp add: augment_assoc)
qed

theorem assoc_entity_gets_no_fk_witness:
  "map_of (fst (parse_puml authorship_diagram)) ''Authorship'' = Some [''rank'']
   \<and> [''rank''] \<noteq> []
   \<and> 2 \<le> endpoint_count (snd (parse_puml authorship_diagram)) ''Authorship''
   \<and> map_of (final_entities authorship_diagram) ''Authorship'' = Some [''rank'']"
proof -
  have h1: "map_of (fst (parse_puml authorship_diagram)) ''Authorship'' = Some [''rank'']"
    by code_simp
  have h2: "[''rank''] \<noteq> ([] :: string list)" by simp
  have h3: "2 \<le> endpoint_count (snd (parse_puml authorship_diagram)) ''Authorship''"
    by code_simp
  show ?thesis
    using h1 h3 assoc_entity_gets_no_fk[OF h1 h2 h3]
    by (simp add: final_entities_def augmented_def split_beta)
qed

lemma add_fk_columns:
  assumes "add_fk k c ents = Inr ents'" and "map_of ents' n = Some cs'"
  shows "\<exists>cs. map_of ents n = Some cs \<and> prefix cs cs' \<and> (distinct cs \<longrightarrow> distinct cs')"
  using assms
  by (auto simp: add_fk_def map_of_append_col split: option.splits if_splits)

lemma augment_step_columns:
  assumes "augment_step assoc ents r = Inr ents'" and "map_of ents' n = Some cs'"
  shows "\<exists>cs. map_of ents n = Some cs \<and> prefix cs cs' \<and> (distinct cs \<longrightarrow> distinct cs')"
  using assms unfolding augment_step_def Let_def
  by (auto split: if_splits dest: add_fk_columns)

lemma augment_columns:
  "map_of (fst (augment assoc ents rels)) n = Some cs' \<Longrightarrow>
     \<exists>cs. map_of ents n = Some cs \<and> prefix cs cs' \<and> (distinct cs \<longrightarrow> distinct cs')"
proof (induction rels arbitrary: ents)
  case Nil
  then show ?case by simp
next
  case (Cons r rels)
  show ?case
  proof (cases "augment_step assoc ents r")
    case (Inl err)
    with Cons.prems show ?thesis by simp
  next
    case (Inr ents1)
    with Cons.prems have "map_of (fst (augment assoc ents1 rels)) n = Some cs'" by simp
    from Cons.IH[OF this] obtain cs1 where
      1: "map_of ents1 n = Some cs1" "prefix cs1 cs'" "distinct cs1 \<longrightarrow> distinct cs'" by blast
    from augment_step_columns[OF Inr 1(1)] obtain cs where
      2: "map_of ents n = Some cs" "prefix cs cs1" "distinct cs \<longrightarrow> distinct cs1" by blast
    from 1 2 show ?thesis by (auto intro: prefix_order.trans)
  qed
qed

text \<open>
  Claim C8, as the script has it.  The parser appends every attribute line it reads, so
  a repeated attribute is a repeated column; only the foreign-key loop tests for
  presence before it appends.  The final column list of an entity therefore starts with
  its parsed column list, in order, and is free of duplicates whenever the parsed list
  is.
\<close>

theorem augment_keeps_columns:
  "map_of (fst (augment assoc ents rels)) n = Some cs' \<Longrightarrow>
     \<exists>cs. map_of ents n = Some cs \<and> prefix cs cs' \<and> (distinct cs \<longrightarrow> distinct cs')"
  by (rule augment_columns)

theorem augment_keeps_columns_witness:
  "map_of (final_entities scenario_diagram) ''Person'' = Some [''person_id'', ''document_id'']
   \<and> (\<exists>cs. map_of (fst (parse_puml scenario_diagram)) ''Person'' = Some cs
             \<and> prefix cs [''person_id'', ''document_id'']
             \<and> (distinct cs \<longrightarrow> distinct [''person_id'', ''document_id'']))"
proof -
  have h: "map_of (final_entities scenario_diagram) ''Person''
           = Some [''person_id'', ''document_id'']"
    by code_simp
  show ?thesis
    using h augment_keeps_columns[of
        "detect_assoc_entities (fst (parse_puml scenario_diagram)) (snd (parse_puml scenario_diagram))"
        "fst (parse_puml scenario_diagram)" "snd (parse_puml scenario_diagram)"
        "''Person''" "[''person_id'', ''document_id'']"]
    by (simp add: final_entities_def augmented_def split_beta)
qed

text \<open>
  Claim C8 as stated fails: an entity block that declares the attribute \<open>x\<close> twice ends
  with the column list \<open>x, x\<close>.
\<close>

theorem repeated_attribute_counterexample:
  "final_entities dup_diagram = [(''A'', [''x'', ''x''])]
   \<and> \<not> distinct (snd (hd (final_entities dup_diagram)))"
  by code_simp

section \<open>Properties of the random source, strings and primary keys\<close>

lemma choice_in: "xs \<noteq> [] \<Longrightarrow> fst (choice xs g) \<in> set xs"
  by (simp add: choice_def)

lemma randint_range: "a \<le> b \<Longrightarrow> a \<le> fst (randint a b g) \<and> fst (randint a b g) \<le> b"
proof -
  assume "a \<le> b"
  then have pos: "0 < b - a + 1" by simp
  have "0 \<le> int (fst (draw g)) mod (b - a + 1)"
    using pos by (rule pos_mod_sign)
  moreover have "int (fst (draw g)) mod (b - a + 1) < b - a + 1"
    using pos by (rule pos_mod_bound)
  ultimately show ?thesis by (simp add: randint_def)
qed

text \<open>Every outcome of the two generators is the value for some oracle.\<close>

lemma randint_onto:
  assumes "a \<le> v" and "v \<le> b"
  shows "fst (randint a b [nat (v - a)]) = v"
  using assms by (simp add: randint_def draw_def)

lemma choice_onto:
  assumes "i < length xs"
  shows "fst (choice xs [i]) = xs ! i"
  using assms by (simp add: choice_def draw_def)

lemma lower_char_idem: "lower_char (lower_char c) = lower_char c"
  by (simp add: lower_char_def upper_letters_def lower_letters_def)

lemma lower_idem: "lower (lower s) = lower s"
  by (simp add: lower_def lower_char_idem)

lemma lower_take: "lower (take n s) = take n (lower s)"
  by (simp add: lower_def take_map)

lemma upt_upto: "map (\<lambda>i. int i + 1) [0..<n] = [1..int n]"
proof (induction n)
  case 0
  show ?case by simp
next
  case (Suc n)
  have "[1..int (Suc n)] = [1..int n] @ [int n + 1]"
    using upto_rec2[of 1 "int (Suc n)"] by (simp add: add.commute)
  with Suc show ?case by simp
qed

lemma pk_list: "map (\<lambda>i. int i + 1) (py_range rows) = [1..rows]"
proof (cases "0 \<le> rows")
  case True
  then show ?thesis using upt_upto[of "nat rows"] by (simp add: py_range_def)
next
  case False
  then show ?thesis by (simp add: py_range_def)
qed

lemma pk_values_of_entry:
  "(k, vals) \<in> set (pk_values_of ents rows) \<Longrightarrow> vals = [] \<or> vals = [1..rows]"
  by (auto simp: pk_values_of_def pk_list)

lemma pk_values_of_nth:
  "i < length ents \<Longrightarrow> ents ! i = (ent, cols) \<Longrightarrow>
     pk_values_of ents rows ! i = (ent, if ent_id_col ent cols \<noteq> None then [1..rows] else [])"
  by (simp add: pk_values_of_def pk_list)

lemma map_of_pk_values_of:
  "map_of (pk_values_of ents rows) ent =
     map_option (\<lambda>cols. if ent_id_col ent cols \<noteq> None then [1..rows] else []) (map_of ents ent)"
  by (induction ents) (auto simp: pk_values_of_def pk_list)

section \<open>Properties of the rules\<close>

text \<open>With at least one row, every integer drawn as a key lies in \<open>1..rows\<close>.\<close>

lemma pick_pk_range:
  assumes "env_pk env = pk_values_of ents rows" and "env_rows env = rows" and "1 \<le> rows"
  shows "fst (pick_pk env ent g) \<in> {1..rows}"
proof (cases "map_of (env_pk env) ent")
  case None
  then show ?thesis using assms randint_range[of 1 rows g] by (simp add: pick_pk_def)
next
  case (Some vals)
  then have "(ent, vals) \<in> set (pk_values_of ents rows)"
    using assms(1) by (auto dest: map_of_SomeD)
  then have v: "vals = [] \<or> vals = [1..rows]" by (rule pk_values_of_entry)
  show ?thesis
  proof (cases "vals = []")
    case True
    then show ?thesis using Some assms randint_range[of 1 rows g] by (simp add: pick_pk_def)
  next
    case False
    with v have "vals = [1..rows]" by simp
    then show ?thesis using Some False choice_in[of vals g] by (simp add: pick_pk_def)
  qed
qed

lemma pick_pk_for_ref_range:
  assumes "set pkv \<subseteq> set (pk_values_of ents rows)" and "1 \<le> rows"
  shows "fst (pick_pk_for_ref pkv ref rows g) \<in> {1..rows}"
  using assms(1)
proof (induction pkv)
  case Nil
  then show ?case using assms(2) randint_range[of 1 rows g] by simp
next
  case (Cons kv pkv)
  obtain k vals where kv: "kv = (k, vals)" by (cases kv)
  with Cons.prems have "vals = [] \<or> vals = [1..rows]" by (auto dest: pk_values_of_entry)
  then show ?case using Cons kv choice_in[of vals g] by auto
qed

lemma resample_student_range:
  assumes "env_pk env = pk_values_of ents rows" and "env_rows env = rows" and "1 \<le> rows"
  shows "s \<in> {1..rows} \<Longrightarrow> fst (resample_student n env adv s g) \<in> {1..rows}"
proof (induction n arbitrary: s g)
  case 0
  then show ?case by simp
next
  case (Suc n)
  show ?case
  proof (cases adv)
    case None
    then show ?thesis using Suc.prems by simp
  next
    case (Some a)
    show ?thesis
    proof (cases "str_int s = py_str a")
      case True
      have "fst (pick_pk env ''Person'' g) \<in> {1..rows}" by (rule pick_pk_range[OF assms])
      from Suc.IH[OF this] show ?thesis using Some True by (simp add: split_beta)
    next
      case False
      then show ?thesis using Some Suc.prems by simp
    qed
  qed
qed

text \<open>Rules that never apply to a column whose name ends in \<open>_id\<close>.\<close>

lemma endswith_id_consts:
  "endswith cl ''_id'' \<Longrightarrow> cl \<noteq> ''display_author_name''"
  "endswith cl ''_id'' \<Longrightarrow> cl \<noteq> ''source''"
  "endswith cl ''_id'' \<Longrightarrow> cl \<noteq> ''citation_source''"
  "endswith cl ''_id'' \<Longrightarrow> cl \<noteq> ''number''"
  "endswith cl ''_id'' \<Longrightarrow> cl \<noteq> ''citation_number''"
  "endswith cl ''_id'' \<Longrightarrow> cl \<noteq> ''page_start''"
  "endswith cl ''_id'' \<Longrightarrow> cl \<noteq> ''page_end''"
  "endswith cl ''_id'' \<Longrightarrow> cl \<noteq> ''advising_relationship_type''"
  "endswith cl ''_id'' \<Longrightarrow> cl \<noteq> ''name''"
  "endswith cl ''_id'' \<Longrightarrow> cl \<noteq> ''code''"
  "endswith cl ''_id'' \<Longrightarrow> cl \<noteq> ''total_award_amount''"
  "endswith cl ''_id'' \<Longrightarrow> cl \<noteq> ''roletype''"
  "endswith cl ''_id'' \<Longrightarrow> cl \<noteq> ''title''"
  "endswith cl ''_id'' \<Longrightarrow> cl \<noteq> ''abbreviation''"
  "endswith cl ''_id'' \<Longrightarrow> cl \<noteq> ''issn''"
  "endswith cl ''_id'' \<Longrightarrow> cl \<noteq> ''ror''"
  "endswith cl ''_id'' \<Longrightarrow> cl \<noteq> ''type''"
  "endswith cl ''_id'' \<Longrightarrow> cl \<noteq> ''other_name''"
  "endswith cl ''_id'' \<Longrightarrow> cl \<noteq> ''preferred_title''"
  "endswith cl ''_id'' \<Longrightarrow> cl \<noteq> ''orcid''"
  "endswith cl ''_id'' \<Longrightarrow> cl \<noteq> ''publication_year''"
  "endswith cl ''_id'' \<Longrightarrow> cl \<noteq> ''start_year''"
  "endswith cl ''_id'' \<Longrightarrow> cl \<noteq> ''end_year''"
  by (auto simp: endswith_def)

lemma id_rules_none:
  assumes "endswith cl ''_id''"
  shows "rule_authorship env ent cl g = None"
    and "rule_citations ent cl g = None"
    and "rule_document ent cols cl row g = None"
    and "rule_event ent cl g = None"
    and "rule_geolocation ent cl g = None"
    and "rule_grant ent cl g = None"
    and "rule_journal ent cl g = None"
    and "rule_organisation ent cl g = None"
    and "rule_person ent cl g = None"
    and "rule_position ent cl g = None"
    and "rule_year cl g = None"
  using assms endswith_id_consts[OF assms]
  by (simp_all add: rule_authorship_def rule_citations_def rule_document_def rule_event_def
        rule_geolocation_def rule_grant_def rule_journal_def rule_organisation_def
        rule_person_def rule_position_def rule_year_def)

lemma id_rule_role_none:
  assumes "endswith cl ''_id''" and "\<not> (lower ent = ''investigatorship'' \<and> contains cl ''role'')"
  shows "rule_role ent cl g = None"
  using assms endswith_id_consts[OF assms(1)] by (auto simp: rule_role_def lower_def lower_char_def upper_letters_def lower_letters_def)


text \<open>The rules that can fill such a column give a key in \<open>1..rows\<close>.\<close>

lemma rule_pk_range:
  assumes "env_pk env = pk_values_of ents rows" and "rule_pk env ent idx cl g = Some res"
  shows "\<exists>k. res = Inr (VInt k, g) \<and> k \<in> {1..rows}"
proof -
  from assms(2) obtain vals where
    v: "map_of (env_pk env) ent = Some vals" "vals \<noteq> []"
       "res = Inr (VInt (vals ! (idx mod length vals)), g)"
    by (auto simp: rule_pk_def split: option.splits if_splits)
  then have "(ent, vals) \<in> set (pk_values_of ents rows)"
    using assms(1) by (auto dest: map_of_SomeD)
  with v(2) have "vals = [1..rows]" by (auto dest: pk_values_of_entry)
  moreover have "vals ! (idx mod length vals) \<in> set vals" using v(2) by simp
  ultimately show ?thesis using v(3) by auto
qed

lemma rule_advisorship_range:
  assumes "env_pk env = pk_values_of ents rows" and "env_rows env = rows" and "1 \<le> rows"
    and "endswith cl ''_id''" and "rule_advisorship env ent cols cl row g = Some res"
  shows "\<exists>k g'. res = Inr (VInt k, g') \<and> k \<in> {1..rows}"
proof -
  note pk = pick_pk_range[OF assms(1-3)]
  note rs = resample_student_range[OF assms(1-3)]
  from assms(5) endswith_id_consts[OF assms(4)] consider
      "res = Inr (vint (pick_pk env ''Person'' g))"
    | "res = Inr (vint (resample_student 10 env (advisor_val cols row)
                         (fst (pick_pk env ''Person'' g)) (snd (pick_pk env ''Person'' g))))"
    by (auto simp: rule_advisorship_def split_beta split: if_splits)
  then show ?thesis
  proof cases
    case 1
    then show ?thesis using pk[of "''Person''" g] by (simp add: vint_def)
  next
    case 2
    then show ?thesis using rs[OF pk[of "''Person''" g]] by (simp add: vint_def)
  qed
qed

lemma rule_fk_range:
  assumes "env_pk env = pk_values_of ents rows" and "env_rows env = rows" and "1 \<le> rows"
    and "rule_fk env cl g = Some res"
  shows "\<exists>k g'. res = Inr (VInt k, g') \<and> k \<in> {1..rows}"
  using assms(4) pick_pk_for_ref_range[of "env_pk env" ents rows, OF _ assms(3)] assms(1,2)
  by (auto simp: rule_fk_def vint_def Let_def split: if_splits)

lemma rule_fk_id: "endswith cl ''_id'' \<Longrightarrow> rule_fk env cl g \<noteq> None"
  by (simp add: rule_fk_def)

text \<open>
  A cell of a column whose name ends in \<open>_id\<close>, outside the role rule of the
  investigatorship entity, holds a key in \<open>1..rows\<close>.
\<close>

lemma gen_cell_id:
  assumes "env_pk env = pk_values_of ents rows" and "env_rows env = rows" and "1 \<le> rows"
    and "endswith (lower c) ''_id''"
    and "\<not> (lower ent = ''investigatorship'' \<and> contains (lower c) ''role'')"
  shows "\<exists>k g'. gen_cell env ent cols idx row c g = Inr (VInt k, g') \<and> k \<in> {1..rows}"
proof -
  let ?cl = "lower c"
  note none = id_rules_none[OF assms(4)] id_rule_role_none[OF assms(4,5)]
  show ?thesis
  proof (cases "rule_pk env ent idx ?cl g")
    case (Some res)
    with rule_pk_range[OF assms(1) Some] show ?thesis
      by (auto simp: gen_cell_def)
  next
    case pk: None
    show ?thesis
    proof (cases "rule_advisorship env ent cols ?cl row g")
      case (Some res)
      with rule_advisorship_range[OF assms(1-4) Some] pk show ?thesis
        by (auto simp: gen_cell_def none)
    next
      case adv: None
      from rule_fk_id[OF assms(4)] obtain res where fk: "rule_fk env ?cl g = Some res" by blast
      with rule_fk_range[OF assms(1-3) fk] pk adv show ?thesis
        by (auto simp: gen_cell_def none)
    qed
  qed
qed

section \<open>The shape of the output\<close>

text \<open>The shape of a row, of the rows of a file and of the files of a run.\<close>

lemma gen_row_cells:
  "gen_row env ent cols idx cs row g = Inr (row', g') \<Longrightarrow>
     \<exists>vs. row' = row @ vs \<and> length vs = length cs \<and>
       (\<forall>j < length cs. \<exists>gj gj'.
           gen_cell env ent cols idx (row @ take j vs) (cs ! j) gj = Inr (vs ! j, gj'))"
proof (induction cs arbitrary: row g)
  case Nil
  then show ?case by simp
next
  case (Cons c cs)
  from Cons.prems obtain v g1 where
    c: "gen_cell env ent cols idx row c g = Inr (v, g1)" and
    r: "gen_row env ent cols idx cs (row @ [v]) g1 = Inr (row', g')"
    by (auto split: sum.splits)
  from Cons.IH[OF r] obtain vs where
    vs: "row' = (row @ [v]) @ vs" "length vs = length cs"
        "\<forall>j < length cs. \<exists>gj gj'.
           gen_cell env ent cols idx ((row @ [v]) @ take j vs) (cs ! j) gj = Inr (vs ! j, gj')"
    by blast
  have "\<forall>j < length (c # cs). \<exists>gj gj'.
           gen_cell env ent cols idx (row @ take j (v # vs)) ((c # cs) ! j) gj
             = Inr ((v # vs) ! j, gj')"
  proof (intro allI impI)
    fix j assume j: "j < length (c # cs)"
    show "\<exists>gj gj'. gen_cell env ent cols idx (row @ take j (v # vs)) ((c # cs) ! j) gj
             = Inr ((v # vs) ! j, gj')"
    proof (cases j)
      case 0
      with c show ?thesis by auto
    next
      case (Suc j')
      with j vs(3) show ?thesis by simp
    qed
  qed
  with vs(1,2) show ?case by (intro exI[of _ "v # vs"]) simp
qed

text \<open>A row that can be written for the entity at row index \<open>idx\<close>.\<close>

lemma row_cells:
  assumes "gen_row env ent cols idx cols [] g = Inr (row, g')"
  shows "length row = length cols \<and>
         (\<forall>j < length cols. \<exists>gj gj'.
            gen_cell env ent cols idx (take j row) (cols ! j) gj = Inr (row ! j, gj'))"
  using gen_row_cells[OF assms] by auto

lemma gen_rows_rows:
  "gen_rows env ent cols idxs g = Inr (rs, g') \<Longrightarrow>
     length rs = length idxs \<and>
     (\<forall>i < length idxs. \<exists>gi gi'. gen_row env ent cols (idxs ! i) cols [] gi = Inr (rs ! i, gi'))"
proof (induction idxs arbitrary: rs g)
  case Nil
  then show ?case by simp
next
  case (Cons idx idxs)
  from Cons.prems obtain row g1 others where
    a: "gen_row env ent cols idx cols [] g = Inr (row, g1)" and
    b: "gen_rows env ent cols idxs g1 = Inr (others, g')" and
    c: "rs = row # others"
    by (auto split: sum.splits)
  from Cons.IH[OF b] have ih: "length others = length idxs"
    "\<forall>i < length idxs. \<exists>gi gi'. gen_row env ent cols (idxs ! i) cols [] gi = Inr (others ! i, gi')"
    by auto
  have "\<forall>i < length (idx # idxs). \<exists>gi gi'.
          gen_row env ent cols ((idx # idxs) ! i) cols [] gi = Inr ((row # others) ! i, gi')"
  proof (intro allI impI)
    fix i assume i: "i < length (idx # idxs)"
    show "\<exists>gi gi'. gen_row env ent cols ((idx # idxs) ! i) cols [] gi = Inr ((row # others) ! i, gi')"
    proof (cases i)
      case 0
      with a show ?thesis by auto
    next
      case (Suc i')
      with i ih(2) show ?thesis by simp
    qed
  qed
  with ih(1) c show ?case by simp
qed

lemma write_entities_files:
  "write_entities env ents g = Inr (fs, g') \<Longrightarrow>
     length fs = length ents \<and>
     (\<forall>i < length ents. \<exists>gi gi'.
        fname (fs ! i) = lower (fst (ents ! i)) @ ''.csv'' \<and>
        header (fs ! i) = snd (ents ! i) \<and>
        gen_rows env (fst (ents ! i)) (snd (ents ! i)) (py_range (env_rows env)) gi
          = Inr (data_rows (fs ! i), gi'))"
proof (induction ents arbitrary: fs g)
  case Nil
  then show ?case by simp
next
  case (Cons p ents)
  obtain ent cols where p: "p = (ent, cols)" by (cases p)
  from Cons.prems p obtain rs g1 others where
    a: "gen_rows env ent cols (py_range (env_rows env)) g = Inr (rs, g1)" and
    b: "write_entities env ents g1 = Inr (others, g')" and
    c: "fs = \<lparr>fname = lower ent @ ''.csv'', header = cols, data_rows = rs\<rparr> # others"
    by (auto split: sum.splits)
  from Cons.IH[OF b] have ih: "length others = length ents"
    "\<forall>i < length ents. \<exists>gi gi'.
        fname (others ! i) = lower (fst (ents ! i)) @ ''.csv'' \<and>
        header (others ! i) = snd (ents ! i) \<and>
        gen_rows env (fst (ents ! i)) (snd (ents ! i)) (py_range (env_rows env)) gi
          = Inr (data_rows (others ! i), gi')"
    by auto
  have "\<forall>i < length (p # ents). \<exists>gi gi'.
        fname (fs ! i) = lower (fst ((p # ents) ! i)) @ ''.csv'' \<and>
        header (fs ! i) = snd ((p # ents) ! i) \<and>
        gen_rows env (fst ((p # ents) ! i)) (snd ((p # ents) ! i)) (py_range (env_rows env)) gi
          = Inr (data_rows (fs ! i), gi')"
  proof (intro allI impI)
    fix i assume i: "i < length (p # ents)"
    show "\<exists>gi gi'.
        fname (fs ! i) = lower (fst ((p # ents) ! i)) @ ''.csv'' \<and>
        header (fs ! i) = snd ((p # ents) ! i) \<and>
        gen_rows env (fst ((p # ents) ! i)) (snd ((p # ents) ! i)) (py_range (env_rows env)) gi
          = Inr (data_rows (fs ! i), gi')"
    proof (cases i)
      case 0
      with a c p show ?thesis by auto
    next
      case (Suc i')
      with i ih(2) c show ?thesis by simp
    qed
  qed
  with ih(1) c show ?case by simp
qed

lemma augment_split:
  "augment (detect_assoc_entities ents rels) ents rels = (augmented ents rels, augment_fault ents rels)"
  by (simp add: augmented_def augment_fault_def)

lemma generate_csvs_Inr:
  assumes "generate_csvs ents rels out_dir rows g = Inr files"
  shows "augment_fault ents rels = None \<and>
     (\<exists>ps g1 fs g2 js g3.
        write_entities \<lparr>env_pk = pk_values_of (augmented ents rels) rows, env_persons = ps,
                         env_rows = rows\<rparr> (augmented ents rels) g1 = Inr (fs, g2)
        \<and> write_joins out_dir (pk_values_of (augmented ents rels) rows) rows rels g2
              = Inr (js, g3)
        \<and> files = fs @ js)"
proof -
  let ?pkv = "pk_values_of (augmented ents rels) rows"
  obtain ps g1 where p: "pregenerate_persons (augmented ents rels) ?pkv g = (ps, g1)"
    by (cases "pregenerate_persons (augmented ents rels) ?pkv g")
  let ?env = "\<lparr>env_pk = ?pkv, env_persons = ps, env_rows = rows\<rparr>"
  from assms have a: "augment_fault ents rels = None"
    unfolding generate_csvs_def Let_def augment_split by (simp split: option.splits)
  with assms p obtain fs g2 where w: "write_entities ?env (augmented ents rels) g1 = Inr (fs, g2)"
    unfolding generate_csvs_def Let_def augment_split by (auto split: sum.splits)
  with assms p a obtain js g3 where
    "write_joins out_dir ?pkv rows rels g2 = Inr (js, g3)" and "files = fs @ js"
    unfolding generate_csvs_def Let_def augment_split by (auto split: sum.splits)
  with a w show ?thesis by blast
qed

lemma generate_entity_file:
  assumes "generate_csvs ents rels out_dir rows g = Inr files"
    and "i < length (augmented ents rels)" and "augmented ents rels ! i = (ent, cols)"
  shows "fname (files ! i) = lower ent @ ''.csv'' \<and> header (files ! i) = cols
       \<and> length (data_rows (files ! i)) = nat rows
       \<and> (\<forall>idx < nat rows. \<exists>env g1 g2.
             env_pk env = pk_values_of (augmented ents rels) rows \<and> env_rows env = rows
             \<and> gen_row env ent cols idx cols [] g1 = Inr (data_rows (files ! i) ! idx, g2))"
proof -
  from generate_csvs_Inr[OF assms(1)] obtain ps g1 fs g2 js g3 where
    w: "write_entities \<lparr>env_pk = pk_values_of (augmented ents rels) rows, env_persons = ps,
                         env_rows = rows\<rparr> (augmented ents rels) g1 = Inr (fs, g2)"
    and f: "files = fs @ js"
    by blast
  let ?env = "\<lparr>env_pk = pk_values_of (augmented ents rels) rows, env_persons = ps, env_rows = rows\<rparr>"
  from write_entities_files[OF w] assms(2,3) obtain gi gi' where
    len: "length fs = length (augmented ents rels)" and
    fi: "fname (fs ! i) = lower ent @ ''.csv''" "header (fs ! i) = cols"
        "gen_rows ?env ent cols (py_range rows) gi = Inr (data_rows (fs ! i), gi')"
    by fastforce
  have nth: "files ! i = fs ! i" using f len assms(2) by (simp add: nth_append)
  from gen_rows_rows[OF fi(3)] have
    r: "length (data_rows (fs ! i)) = nat rows"
       "\<forall>idx < nat rows. \<exists>g1 g2. gen_row ?env ent cols idx cols [] g1 = Inr (data_rows (fs ! i) ! idx, g2)"
    by (auto simp: py_range_def)
  have "\<forall>idx < nat rows. \<exists>env g1 g2.
             env_pk env = pk_values_of (augmented ents rels) rows \<and> env_rows env = rows
             \<and> gen_row env ent cols idx cols [] g1 = Inr (data_rows (fs ! i) ! idx, g2)"
  proof (intro allI impI)
    fix idx assume "idx < nat rows"
    with r(2) obtain g1 g2 where
      "gen_row ?env ent cols idx cols [] g1 = Inr (data_rows (fs ! i) ! idx, g2)" by blast
    then show "\<exists>env g1 g2.
             env_pk env = pk_values_of (augmented ents rels) rows \<and> env_rows env = rows
             \<and> gen_row env ent cols idx cols [] g1 = Inr (data_rows (fs ! i) ! idx, g2)"
      by (intro exI[of _ ?env]) auto
  qed
  with fi(1,2) r(1) nth show ?thesis by simp
qed

section \<open>Foreign-key cells\<close>

text \<open>
  Every cell that reaches the generic foreign-key rule holds a key of the referenced
  entity.  More generally: in the file of any entity, a cell of a column whose lower-cased
  name is \<open>ref_id\<close> holds a key of the primary-key sequence of every entity whose
  lower-cased name is \<open>ref\<close> and whose sequence is not empty, unless the role rule of
  the investigatorship entity takes the column first (an entity named
  \<open>investigatorship\<close>, in any letter case, and a column name that contains \<open>role\<close>).
\<close>

lemma fk_cell_in_keys:
  assumes "generate_csvs ents rels out_dir rows g = Inr files"
    and "i < length (augmented ents rels)" and "augmented ents rels ! i = (ent, cols)"
    and "j < length cols" and "endswith (lower (cols ! j)) ''_id''"
    and "\<not> (lower ent = ''investigatorship'' \<and> contains (lower (cols ! j)) ''role'')"
    and "(k, vals) \<in> set (pk_values_of (augmented ents rels) rows)"
    and "lower k = take (length (cols ! j) - 3) (lower (cols ! j))"
    and "vals \<noteq> []"
    and "row \<in> set (data_rows (files ! i))"
  shows "\<exists>v. row ! j = VInt v \<and> v \<in> set vals"
proof -
  from assms(7,9) have vals: "vals = [1..rows]" by (auto dest: pk_values_of_entry)
  with assms(9) have rows: "1 \<le> rows" by (cases "1 \<le> rows") auto
  note fl = generate_entity_file[OF assms(1-3)]
  from assms(10) fl obtain idx where
    idx: "idx < nat rows" "row = data_rows (files ! i) ! idx"
    by (auto simp: in_set_conv_nth)
  with fl obtain env g1 g2 where
    env: "env_pk env = pk_values_of (augmented ents rels) rows" "env_rows env = rows" and
    row: "gen_row env ent cols idx cols [] g1 = Inr (row, g2)"
    by blast
  from row_cells[OF row] assms(4) obtain gj gj' where
    cell: "gen_cell env ent cols idx (take j row) (cols ! j) gj = Inr (row ! j, gj')"
    by blast
  from gen_cell_id[OF env rows assms(5,6), of cols idx "take j row" gj] cell
  show ?thesis using vals by auto
qed

lemma fk_cell_in_keys_example:
  "generate_csvs scenario_ents scenario_rels fresh_dir 3 [] = Inr scenario_files
   \<and> augmented scenario_ents scenario_rels ! 0 = (''Person'', [''person_id'', ''document_id''])
   \<and> (''Document'', [1, 2, 3]) \<in> set (pk_values_of (augmented scenario_ents scenario_rels) 3)
   \<and> lower ''Document'' = take (length ''document_id'' - 3) (lower ''document_id'')
   \<and> [VInt 2, VInt 1] \<in> set (data_rows (scenario_files ! 0))
   \<and> (\<exists>v. [VInt 2, VInt 1] ! 1 = VInt v \<and> v \<in> set [1, 2, 3])"
proof -
  have h1: "generate_csvs scenario_ents scenario_rels fresh_dir 3 [] = Inr scenario_files"
    by code_simp
  have h2: "0 < length (augmented scenario_ents scenario_rels)" by code_simp
  have h3: "augmented scenario_ents scenario_rels ! 0 = (''Person'', [''person_id'', ''document_id''])"
    by code_simp
  have h4: "1 < length [''person_id'', ''document_id'']" by simp
  have h5: "endswith (lower ([''person_id'', ''document_id''] ! 1)) ''_id''" by code_simp
  have h6: "\<not> (lower ''Person'' = ''investigatorship''
               \<and> contains (lower ([''person_id'', ''document_id''] ! 1)) ''role'')"
    by code_simp
  have h7: "(''Document'', [1, 2, 3]) \<in> set (pk_values_of (augmented scenario_ents scenario_rels) 3)"
    by code_simp
  have h8: "lower ''Document'' = take (length ([''person_id'', ''document_id''] ! 1) - 3)
                                   (lower ([''person_id'', ''document_id''] ! 1))"
    by code_simp
  have h9: "[1, 2, 3] \<noteq> ([] :: int list)" by simp
  have h10: "[VInt 2, VInt 1] \<in> set (data_rows (scenario_files ! 0))" by code_simp
  from fk_cell_in_keys[OF h1 h2 h3 h4 h5 h6 h7 h8 h9 h10] h1 h3 h7 h8 h10
  show ?thesis by simp
qed

text \<open>
  Claim C1 does not hold of the script.  The edge \<open>Role ||--o{ Investigatorship\<close> makes
  the foreign-key loop itself add the column \<open>role_id\<close> to \<open>Investigatorship\<close>, and the
  entity \<open>Role\<close> has the primary key \<open>1\<close>.  The role rule, written for columns such as
  \<open>roleType\<close> and \<open>role_type\<close>, tests whether the column name contains \<open>role\<close>; it
  comes before the generic foreign-key rule and fills the foreign key with a role title.
\<close>

theorem role_column_failing_input:
  "final_entities role_diagram =
     [(''Role'', [''role_id'']), (''Investigatorship'', [''investigatorship_id'', ''role_id''])]
   \<and> map_of (pk_values_of (final_entities role_diagram) 1) ''Role'' = Some [1]
   \<and> main role_diagram fresh_dir 1 [] = Inr
       [\<lparr>fname = ''role.csv'', header = [''role_id''], data_rows = [[VInt 1]]\<rparr>,
        \<lparr>fname = ''investigatorship.csv'', header = [''investigatorship_id'', ''role_id''],
          data_rows = [[VInt 1, VStr ''Principal Investigator'']]\<rparr>]"
  by code_simp

section \<open>Page ranges of documents\<close>

lemma index_Some: "index xs x = Some i \<Longrightarrow> i < length xs \<and> xs ! i = x"
proof (induction xs arbitrary: i)
  case Nil
  then show ?case by simp
next
  case (Cons y ys)
  then show ?case by (cases "y = x") auto
qed

lemma lower_Document: "lower ''Document'' = ''document''"
  by code_simp

lemma gen_cell_page_start:
  assumes "lower c = ''page_start''"
  shows "gen_cell env ''Document'' cols idx row c g = Inr (vint (randint 1 200 g))"
  using assms
  by (simp add: gen_cell_def Let_def lower_Document rule_pk_def rule_authorship_def
        rule_citations_def rule_document_def split: option.splits)

lemma gen_cell_page_end:
  assumes "lower c = ''page_end''"
  shows "gen_cell env ''Document'' cols idx row c g =
           (case page_start_val cols row of
              Some start_val \<Rightarrow> Inr (VInt (start_val + fst (randint 1 30 g)), snd (randint 1 30 g))
            | None \<Rightarrow> Inr (vint (randint 2 400 g)))"
  using assms
  by (simp add: gen_cell_def Let_def lower_Document rule_pk_def rule_authorship_def
        rule_citations_def rule_document_def split_beta split: option.splits)

text \<open>
  Claim C4, as the script has it.  The script looks the first page up as the first
  column whose lower-cased name is \<open>page_start\<close>.  In every row of the file of the entity
  \<open>Document\<close>, a cell of a column named \<open>page_end\<close> (in any letter case) that comes after
  that first column holds an integer strictly greater than the integer in the cell of
  that first column.  Nothing is said of a later column of the same lower-cased name.
\<close>

theorem page_end_after_page_start:
  assumes "generate_csvs ents rels out_dir rows g = Inr files"
    and "i < length (augmented ents rels)" and "augmented ents rels ! i = (''Document'', cols)"
    and "index (map lower cols) ''page_start'' = Some ps"
    and "ps < pe" and "pe < length cols" and "lower (cols ! pe) = ''page_end''"
    and "row \<in> set (data_rows (files ! i))"
  shows "\<exists>s e. row ! ps = VInt s \<and> row ! pe = VInt e \<and> s < e"
proof -
  note fl = generate_entity_file[OF assms(1-3)]
  from assms(8) fl obtain idx where
    idx: "idx < nat rows" "row = data_rows (files ! i) ! idx"
    by (auto simp: in_set_conv_nth)
  with fl obtain env g1 g2 where
    row: "gen_row env ''Document'' cols idx cols [] g1 = Inr (row, g2)"
    by blast
  note cells = row_cells[OF row]
  from index_Some[OF assms(4)] have ps: "ps < length cols" "lower (cols ! ps) = ''page_start''"
    by auto
  from cells ps(1) obtain gs gs' where
    "gen_cell env ''Document'' cols idx (take ps row) (cols ! ps) gs = Inr (row ! ps, gs')"
    by blast
  then have s: "row ! ps = VInt (fst (randint 1 200 gs))"
    by (simp add: gen_cell_page_start[OF ps(2)] vint_def)
  from cells assms(6) obtain ge ge' where
    e: "gen_cell env ''Document'' cols idx (take pe row) (cols ! pe) ge = Inr (row ! pe, ge')"
    by blast
  have "page_start_val cols (take pe row) = Some (fst (randint 1 200 gs))"
    using assms(4,5,6) cells s by (simp add: page_start_val_def py_int_def)
  with e have "row ! pe = VInt (fst (randint 1 200 gs) + fst (randint 1 30 ge))"
    by (simp add: gen_cell_page_end[OF assms(7)])
  moreover have "1 \<le> fst (randint 1 30 ge)" using randint_range[of 1 30 ge] by simp
  ultimately show ?thesis using s by simp
qed

theorem page_end_after_page_start_witness:
  "generate_csvs document_ents [] fresh_dir 2 [] = Inr document_files
   \<and> augmented document_ents [] ! 0 = (''Document'', [''document_id'', ''page_start'', ''page_end''])
   \<and> index (map lower [''document_id'', ''page_start'', ''page_end'']) ''page_start'' = Some 1
   \<and> lower ([''document_id'', ''page_start'', ''page_end''] ! 2) = ''page_end''
   \<and> [VInt 1, VInt 1, VInt 2] \<in> set (data_rows (document_files ! 0))
   \<and> (\<exists>s e. [VInt 1, VInt 1, VInt 2] ! 1 = VInt s \<and> [VInt 1, VInt 1, VInt 2] ! 2 = VInt e
              \<and> s < e)"
proof -
  have h1: "generate_csvs document_ents [] fresh_dir 2 [] = Inr document_files" by code_simp
  have h2: "0 < length (augmented document_ents [])" by code_simp
  have h3: "augmented document_ents [] ! 0
            = (''Document'', [''document_id'', ''page_start'', ''page_end''])"
    by code_simp
  have h4: "index (map lower [''document_id'', ''page_start'', ''page_end'']) ''page_start''
            = Some 1"
    by code_simp
  have h5: "(1::nat) < 2" by simp
  have h6: "2 < length [''document_id'', ''page_start'', ''page_end'']" by simp
  have h7: "lower ([''document_id'', ''page_start'', ''page_end''] ! 2) = ''page_end''"
    by code_simp
  have h8: "[VInt 1, VInt 1, VInt 2] \<in> set (data_rows (document_files ! 0))" by code_simp
  from page_end_after_page_start[OF h1 h2 h3 h4 h5 h6 h7 h8] h1 h3 h4 h7 h8
  show ?thesis by blast
qed

text \<open>
  Claim C4 as stated fails: with the columns \<open>Page_Start\<close>, \<open>page_start\<close>, \<open>page_end\<close> the
  last page is computed from the cell of \<open>Page_Start\<close>, and the row \<open>1, 200, 2\<close> has
  \<open>page_end\<close> below \<open>page_start\<close>.
\<close>

theorem page_start_lookup_counterexample:
  "final_entities pages_diagram = [(''Document'', [''Page_Start'', ''page_start'', ''page_end''])]
   \<and> main pages_diagram fresh_dir 1 [0, 199, 0] = Inr
       [\<lparr>fname = ''document.csv'', header = [''Page_Start'', ''page_start'', ''page_end''],
          data_rows = [[VInt 1, VInt 200, VInt 2]]\<rparr>]"
  by code_simp

section \<open>Primary-key sequences and identifier columns\<close>

lemma append_col_keys: "map fst (append_col k c ents) = map fst ents"
  by (induction ents) (auto simp: append_col_def)

lemma add_fk_keys: "add_fk k c ents = Inr ents' \<Longrightarrow> map fst ents' = map fst ents"
  by (auto simp: add_fk_def append_col_keys split: option.splits if_splits)

lemma augment_step_keys:
  "augment_step assoc ents r = Inr ents' \<Longrightarrow> map fst ents' = map fst ents"
  unfolding augment_step_def Let_def
  by (auto split: if_splits dest: add_fk_keys)

lemma augment_keys: "map fst (fst (augment assoc ents rels)) = map fst ents"
proof (induction rels arbitrary: ents)
  case Nil
  show ?case by simp
next
  case (Cons r rels)
  show ?case
  proof (cases "augment_step assoc ents r")
    case (Inl err)
    then show ?thesis by simp
  next
    case (Inr ents')
    then show ?thesis using Cons.IH[of ents'] augment_step_keys[OF Inr] by simp
  qed
qed

lemma augmented_keys: "map fst (augmented ents rels) = map fst ents"
  by (simp add: augmented_def augment_keys)

lemma map_of_nth:
  assumes "distinct (map fst xs)" and "i < length xs" and "xs ! i = (k, v)"
  shows "map_of xs k = Some v"
proof -
  have "(k, v) \<in> set xs" using assms(2,3) by (metis nth_mem)
  with assms(1) show ?thesis by simp
qed

lemma gen_cell_own_id:
  assumes "map_of (env_pk env) ent = Some vals" and "vals \<noteq> []"
    and "lower c = lower ent @ ''_id''"
  shows "gen_cell env ent cols idx row c g = Inr (VInt (vals ! (idx mod length vals)), g)"
  using assms by (simp add: gen_cell_def Let_def rule_pk_def)

lemma index_mem: "x \<in> set xs \<Longrightarrow> \<exists>i. index xs x = Some i"
  by (induction xs) auto

lemma ent_id_col_exact:
  assumes "lower ent @ ''_id'' \<in> set (map lower cols)" and "ent_id_col ent cols = Some idc"
  shows "lower idc = lower ent @ ''_id''"
proof -
  from index_mem[OF assms(1)] obtain i where
    i: "index (map lower cols) (lower ent @ ''_id'') = Some i" by blast
  from index_Some[OF i] have "i < length cols" and "lower (cols ! i) = lower ent @ ''_id''"
    by auto
  moreover from assms(2) i have "idc = cols ! i" by (simp add: ent_id_col_def Let_def)
  ultimately show ?thesis by simp
qed

lemma upto_nth: "idx < nat rows \<Longrightarrow> [1..rows] ! (idx mod length [1..rows]) = int idx + 1"
  by simp

text \<open>
  Claim C2, as the script has it.  An entity with a detected identifier column has the
  primary-key sequence \<open>1..rows\<close>.  In its file, row \<open>idx\<close> holds the sequence element
  \<open>idx\<close> modulo the length, which is \<open>idx + 1\<close>, in every column whose lower-cased name
  is the lower-cased entity name followed by \<open>_id\<close>; when there is such a column, the
  detected identifier column is one.  Nothing is said of an identifier column that
  was only detected as the first column ending in \<open>_id\<close>: the deterministic rule tests
  the column name, and such a column is filled by the rules that come later.
\<close>

theorem pk_sequence_and_own_id_column:
  assumes "generate_csvs ents rels out_dir rows g = Inr files"
    and "distinct (map fst ents)"
    and "i < length (augmented ents rels)" and "augmented ents rels ! i = (ent, cols)"
    and "ent_id_col ent cols = Some idc"
  shows "pk_values_of (augmented ents rels) rows ! i = (ent, [1..rows])
       \<and> (lower ent @ ''_id'' \<in> set (map lower cols) \<longrightarrow> lower idc = lower ent @ ''_id'')
       \<and> (\<forall>idx j. idx < nat rows \<and> j < length cols \<and> lower (cols ! j) = lower ent @ ''_id''
            \<longrightarrow> data_rows (files ! i) ! idx ! j = VInt ([1..rows] ! (idx mod length [1..rows]))
              \<and> [1..rows] ! (idx mod length [1..rows]) = int idx + 1)"
proof (intro conjI allI impI)
  show "pk_values_of (augmented ents rels) rows ! i = (ent, [1..rows])"
    using pk_values_of_nth[OF assms(3,4), of rows] assms(5) by simp
next
  assume "lower ent @ ''_id'' \<in> set (map lower cols)"
  then show "lower idc = lower ent @ ''_id''" using assms(5) by (rule ent_id_col_exact)
next
  fix idx j
  assume a: "idx < nat rows \<and> j < length cols \<and> lower (cols ! j) = lower ent @ ''_id''"
  then show "[1..rows] ! (idx mod length [1..rows]) = int idx + 1"
    using upto_nth[of idx rows] by blast
  have "distinct (map fst (augmented ents rels))" using assms(2) by (simp add: augmented_keys)
  from map_of_nth[OF this assms(3,4)] have
    pk: "map_of (pk_values_of (augmented ents rels) rows) ent = Some [1..rows]"
    using assms(5) by (simp add: map_of_pk_values_of)
  have ne: "[1..rows] \<noteq> []" using a by auto
  from generate_entity_file[OF assms(1,3,4)] a obtain env g1 g2 where
    env: "env_pk env = pk_values_of (augmented ents rels) rows" and
    row: "gen_row env ent cols idx cols [] g1 = Inr (data_rows (files ! i) ! idx, g2)"
    by blast
  from row_cells[OF row] a obtain gj gj' where
    "gen_cell env ent cols idx (take j (data_rows (files ! i) ! idx)) (cols ! j) gj
       = Inr (data_rows (files ! i) ! idx ! j, gj')"
    by blast
  moreover have "map_of (env_pk env) ent = Some [1..rows]" using pk env by simp
  ultimately show "data_rows (files ! i) ! idx ! j = VInt ([1..rows] ! (idx mod length [1..rows]))"
    using a ne by (simp add: gen_cell_own_id)
qed

theorem pk_sequence_and_own_id_column_witness:
  "generate_csvs scenario_ents scenario_rels fresh_dir 3 [] = Inr scenario_files
   \<and> distinct (map fst scenario_ents)
   \<and> augmented scenario_ents scenario_rels ! 1 = (''Document'', [''document_id''])
   \<and> ent_id_col ''Document'' [''document_id''] = Some ''document_id''
   \<and> pk_values_of (augmented scenario_ents scenario_rels) 3 ! 1 = (''Document'', [1..3])
   \<and> data_rows (scenario_files ! 1) ! 2 ! 0 = VInt 3"
proof -
  have h1: "generate_csvs scenario_ents scenario_rels fresh_dir 3 [] = Inr scenario_files"
    by code_simp
  have h2: "distinct (map fst scenario_ents)" by code_simp
  have h3: "1 < length (augmented scenario_ents scenario_rels)" by code_simp
  have h4: "augmented scenario_ents scenario_rels ! 1 = (''Document'', [''document_id''])"
    by code_simp
  have h5: "ent_id_col ''Document'' [''document_id''] = Some ''document_id''" by code_simp
  have h6: "(2::nat) < nat 3 \<and> (0::nat) < length [''document_id'']
            \<and> lower ([''document_id''] ! 0) = lower ''Document'' @ ''_id''"
    by code_simp
  from pk_sequence_and_own_id_column[OF h1 h2 h3 h4 h5] h6
  have "pk_values_of (augmented scenario_ents scenario_rels) 3 ! 1 = (''Document'', [1..3])"
    and "data_rows (scenario_files ! 1) ! 2 ! 0 = VInt ([1..3] ! (2 mod length [1..3]))"
    and "[1..3] ! (2 mod length [1..3]) = int 2 + 1"
    by blast+
  with h1 h2 h4 h5 show ?thesis by simp
qed

text \<open>
  Claim C2 as stated fails: the identifier column \<open>bar_id\<close> of \<open>Foo\<close> is detected as the
  first column ending in \<open>_id\<close>, the primary-key sequence is \<open>1, 2\<close>, and the first row
  holds \<open>2\<close> in that column.
\<close>

theorem fallback_id_column_counterexample:
  "ent_id_col ''Foo'' [''bar_id''] = Some ''bar_id''
   \<and> pk_values_of (final_entities fallback_diagram) 2 = [(''Foo'', [1, 2])]
   \<and> main fallback_diagram fresh_dir 2 [1] = Inr
        [\<lparr>fname = ''foo.csv'', header = [''bar_id''], data_rows = [[VInt 2], [VInt 1]]\<rparr>]"
  by code_simp

section \<open>Join tables and empty runs\<close>

lemma pad_pairs_length: "length (fst (pad_pairs n lv rv g)) = n"
  by (induction n arbitrary: g) (simp_all add: split_beta)

text \<open>A join table has as many rows as were asked for, when that is not negative.\<close>

lemma join_pairs_length:
  assumes "0 \<le> rows"
  shows "length (fst (join_pairs lv rv rows g)) = nat rows"
  using assms by (simp add: join_pairs_def Let_def split_beta slice_to_def pad_pairs_length)

text \<open>
  The first pairs of a join table walk the two pools in lock-step, up to the length of
  the shorter pool (and the number of rows).
\<close>

lemma join_pairs_lockstep:
  assumes "i < min (length lv) (length rv)" and "int i < rows"
  shows "fst (join_pairs lv rv rows g) ! i = (lv ! i, rv ! i)"
proof -
  from assms(2) have "i < nat rows" by simp
  with assms show ?thesis
    by (simp add: join_pairs_def Let_def split_beta slice_to_def nth_append)
qed

lemma join_pairs_zero: "join_pairs lv rv 0 g = ([], g)"
  by (simp add: join_pairs_def Let_def slice_to_def)

lemma write_joins_zero:
  "write_joins out_dir pkv 0 rels g = Inr (js, g') \<Longrightarrow>
     js = map empty_join_file (filter (\<lambda>r. is_mn (connector r)) rels)"
proof (induction rels arbitrary: js g)
  case Nil
  then show ?case by simp
next
  case (Cons r rels)
  show ?case
  proof (cases "is_mn (connector r)")
    case False
    with Cons show ?thesis by simp
  next
    case True
    with Cons.prems obtain rest where
      "write_joins out_dir pkv 0 rels g = Inr (rest, g')" and "js = empty_join_file r # rest"
      by (auto simp: join_pairs_zero empty_join_file_def split: option.splits sum.splits)
    with Cons.IH True show ?thesis by simp
  qed
qed

lemma write_entities_zero:
  "env_rows env = 0 \<Longrightarrow> write_entities env ents g = Inr (map empty_entity_file ents, g)"
  by (induction ents arbitrary: g) (auto simp: py_range_def empty_entity_file_def)

text \<open>The join files are all written when each of their names opens.\<close>

lemma write_joins_returns:
  assumes "\<forall>r \<in> set rels. is_mn (connector r) \<longrightarrow> open_fault out_dir (join_name r) = None"
  shows "\<exists>js g'. write_joins out_dir pkv rows rels g = Inr (js, g')"
  using assms
proof (induction rels arbitrary: g)
  case Nil
  show ?case by simp
next
  case (Cons r rels)
  then have ih: "\<And>g. \<exists>js g'. write_joins out_dir pkv rows rels g = Inr (js, g')" by simp
  show ?case
  proof (cases "is_mn (connector r)")
    case False
    with ih show ?thesis by simp
  next
    case True
    with Cons.prems have o: "open_fault out_dir (join_name r) = None" by simp
    let ?p = "join_pairs (vals_or_one pkv (left r)) (vals_or_one pkv (right r)) rows g"
    from ih[of "snd ?p"] obtain js g' where
      "write_joins out_dir pkv rows rels (snd ?p) = Inr (js, g')" by blast
    with True o show ?thesis by (simp add: split_beta)
  qed
qed

text \<open>
  With \<open>rows = 0\<close> the run returns its files when the foreign-key loop ends without a
  fault and every join file opens; a join file that does not open ends the run.
\<close>

lemma rows_zero_returns:
  assumes "augment_fault ents rels = None"
    and "\<forall>r \<in> set rels. is_mn (connector r) \<longrightarrow> open_fault out_dir (join_name r) = None"
  shows "\<exists>files. generate_csvs ents rels out_dir 0 g = Inr files"
proof -
  let ?pkv = "pk_values_of (augmented ents rels) 0"
  obtain ps g1 where p: "pregenerate_persons (augmented ents rels) ?pkv g = (ps, g1)"
    by (cases "pregenerate_persons (augmented ents rels) ?pkv g")
  from write_joins_returns[OF assms(2), of ?pkv 0 g1] obtain js g' where
    "write_joins out_dir ?pkv 0 rels g1 = Inr (js, g')" by blast
  then show ?thesis
    unfolding generate_csvs_def Let_def augment_split using assms(1) p
    by (simp add: write_entities_zero)
qed

lemma join_file_fault_example:
  "main [''entity C {'', ''  c_id: int'', ''}'', ''A/B }o--o{ C''] fresh_dir 0 []
     = Inl (OSError ''a/b_c.csv'')"
  by code_simp

text \<open>
  Claim C7.  With \<open>rows = 0\<close> the files of a run are, for every entity, a file with its
  header and no data row, then for every many-to-many edge a file with its header and
  no data row, and nothing else.
\<close>

theorem rows_zero_headers_only:
  assumes "generate_csvs ents rels out_dir 0 g = Inr files"
  shows "files = map empty_entity_file (augmented ents rels)
               @ map empty_join_file (filter (\<lambda>r. is_mn (connector r)) rels)"
proof -
  from generate_csvs_Inr[OF assms] obtain ps g1 fs g2 js g3 where
    w: "write_entities \<lparr>env_pk = pk_values_of (augmented ents rels) 0, env_persons = ps,
                         env_rows = 0\<rparr> (augmented ents rels) g1 = Inr (fs, g2)" and
    j: "write_joins out_dir (pk_values_of (augmented ents rels) 0) 0 rels g2 = Inr (js, g3)" and
    f: "files = fs @ js"
    by blast
  from w have "fs = map empty_entity_file (augmented ents rels)"
    by (simp add: write_entities_zero)
  with write_joins_zero[OF j] f show ?thesis by simp
qed

theorem rows_zero_headers_only_witness:
  "generate_csvs mn_ents mn_rels fresh_dir 0 [] = Inr
     [\<lparr>fname = ''a.csv'', header = [''a_id''], data_rows = []\<rparr>,
      \<lparr>fname = ''b.csv'', header = [''name''], data_rows = []\<rparr>,
      \<lparr>fname = ''a_b.csv'', header = [''a_id'', ''b_id''], data_rows = []\<rparr>]
   \<and> [\<lparr>fname = ''a.csv'', header = [''a_id''], data_rows = []\<rparr>,
      \<lparr>fname = ''b.csv'', header = [''name''], data_rows = []\<rparr>,
      \<lparr>fname = ''a_b.csv'', header = [''a_id'', ''b_id''], data_rows = []\<rparr>]
     = map empty_entity_file (augmented mn_ents mn_rels)
       @ map empty_join_file (filter (\<lambda>r. is_mn (connector r)) mn_rels)"
proof -
  have h: "generate_csvs mn_ents mn_rels fresh_dir 0 [] = Inr
     [\<lparr>fname = ''a.csv'', header = [''a_id''], data_rows = []\<rparr>,
      \<lparr>fname = ''b.csv'', header = [''name''], data_rows = []\<rparr>,
      \<lparr>fname = ''a_b.csv'', header = [''a_id'', ''b_id''], data_rows = []\<rparr>]"
    by code_simp
  from rows_zero_headers_only[OF h] h show ?thesis by blast
qed

text \<open>
  Claim C3 does not hold of the script.  The comment in the script promises each
  primary key at least once, but the lock-step loop runs to the length of the shorter
  pool: the entity \<open>A\<close> has the keys \<open>1, 2\<close>, the entity \<open>B\<close> has no identifier column
  (pool \<open>[1]\<close>), and with two rows the join table holds the pair \<open>(1, 1)\<close> twice, so the
  key \<open>2\<close> of \<open>A\<close> is in no pair.
\<close>

theorem join_coverage_failing_input:
  "pk_values_of (final_entities mn_diagram) 2 = [(''A'', [1, 2]), (''B'', [])]
   \<and> main mn_diagram fresh_dir 2 [] = Inr
       [\<lparr>fname = ''a.csv'', header = [''a_id''], data_rows = [[VInt 1], [VInt 2]]\<rparr>,
        \<lparr>fname = ''b.csv'', header = [''name''],
          data_rows = [[VStr ''University of Belgrade''], [VStr ''University of Belgrade'']]\<rparr>,
        \<lparr>fname = ''a_b.csv'', header = [''a_id'', ''b_id''],
          data_rows = [[VInt 1, VInt 1], [VInt 1, VInt 1]]\<rparr>]"
  by code_simp

section \<open>The end-to-end scenario\<close>

lemma scenario_parse: "parse_puml scenario_diagram = (scenario_ents, scenario_rels)"
  by code_simp

lemma scenario_augment:
  "augment (detect_assoc_entities scenario_ents scenario_rels) scenario_ents scenario_rels
     = ([(''Person'', [''person_id'', ''document_id'']), (''Document'', [''document_id''])], None)"
  by code_simp

lemma scenario_pk:
  "pk_values_of [(''Person'', [''person_id'', ''document_id'']), (''Document'', [''document_id''])] 3
     = [(''Person'', [1, 2, 3]), (''Document'', [1, 2, 3])]"
  by code_simp

lemma scenario_lower:
  "lower ''Person'' = ''person''" "lower ''Document'' = ''document''"
  "lower ''person_id'' = ''person_id''" "lower ''document_id'' = ''document_id''"
  "lower ''document'' = ''document''"
  by code_simp+

lemma scenario_cell_fk:
  assumes "env_pk env = [(''Person'', [1, 2, 3]), (''Document'', [1, 2, 3])]"
  shows "gen_cell env ''Person'' cols idx row ''document_id'' g = Inr (vint (choice [1, 2, 3] g))"
  using assms
  by (simp add: gen_cell_def Let_def scenario_lower rule_pk_def rule_authorship_def
        rule_citations_def rule_document_def rule_advisorship_def rule_event_def
        rule_geolocation_def rule_grant_def rule_role_def rule_journal_def
        rule_organisation_def rule_person_def rule_position_def rule_year_def rule_fk_def
        endswith_def)

lemma scenario_cell_pk:
  assumes "env_pk env = [(''Person'', [1, 2, 3]), (''Document'', [1, 2, 3])]"
  shows "gen_cell env ''Person'' cols idx row ''person_id'' g
           = Inr (VInt ([1, 2, 3] ! (idx mod 3)), g)"
    and "gen_cell env ''Document'' cols idx row ''document_id'' g
           = Inr (VInt ([1, 2, 3] ! (idx mod 3)), g)"
  using assms by (simp_all add: gen_cell_own_id scenario_lower)

lemma scenario_range: "py_range 3 = [0, 1, 2]"
  by code_simp

lemma scenario_joins: "write_joins out_dir pkv rows scenario_rels g = Inr ([], g)"
  by (simp add: scenario_rels_def is_mn_def startswith_def)

text \<open>
  Claim C6.  On the diagram with \<open>Person\<close>, \<open>Document\<close> and the edge
  \<open>Document ||--o{ Person\<close> (\<open>scenario_diagram\<close>, one attribute line inside each
  block), with three rows and whatever the random choices, the run
  writes \<open>person.csv\<close> with the header \<open>person_id, document_id\<close> and three data rows
  whose \<open>document_id\<close> cells are among \<open>1, 2, 3\<close> (and \<open>document.csv\<close> with the keys
  \<open>1, 2, 3\<close>).
\<close>

theorem scenario_person_csv:
  "\<exists>d0 d1 d2. main scenario_diagram out_dir 3 g = Inr
       [\<lparr>fname = ''person.csv'', header = [''person_id'', ''document_id''],
          data_rows = [[VInt 1, VInt d0], [VInt 2, VInt d1], [VInt 3, VInt d2]]\<rparr>,
        \<lparr>fname = ''document.csv'', header = [''document_id''],
          data_rows = [[VInt 1], [VInt 2], [VInt 3]]\<rparr>]
     \<and> {d0, d1, d2} \<subseteq> {1, 2, 3}"
proof -
  let ?pkv = "[(''Person'', [1, 2, 3]), (''Document'', [1, 2, 3 :: int])]"
  let ?final = "[(''Person'', [''person_id'', ''document_id'']), (''Document'', [''document_id''])]"
  obtain ps g1 where p: "pregenerate_persons ?final ?pkv g = (ps, g1)"
    by (cases "pregenerate_persons ?final ?pkv g")
  let ?env = "\<lparr>env_pk = ?pkv, env_persons = ps, env_rows = 3\<rparr>"
  let ?g2 = "snd (choice [1, 2, 3 :: int] g1)"
  let ?g3 = "snd (choice [1, 2, 3 :: int] ?g2)"
  let ?g4 = "snd (choice [1, 2, 3 :: int] ?g3)"
  let ?d0 = "fst (choice [1, 2, 3 :: int] g1)"
  let ?d1 = "fst (choice [1, 2, 3 :: int] ?g2)"
  let ?d2 = "fst (choice [1, 2, 3 :: int] ?g3)"
  have e: "env_pk ?env = ?pkv" by simp
  have w: "write_entities ?env ?final g1 = Inr
       ([\<lparr>fname = ''person.csv'', header = [''person_id'', ''document_id''],
          data_rows = [[VInt 1, VInt ?d0], [VInt 2, VInt ?d1], [VInt 3, VInt ?d2]]\<rparr>,
        \<lparr>fname = ''document.csv'', header = [''document_id''],
          data_rows = [[VInt 1], [VInt 2], [VInt 3]]\<rparr>], ?g4)"
    by (simp add: scenario_range scenario_cell_fk[OF e] scenario_cell_pk[OF e] vint_def
          scenario_lower)
  have m: "main scenario_diagram out_dir 3 g = Inr
       [\<lparr>fname = ''person.csv'', header = [''person_id'', ''document_id''],
          data_rows = [[VInt 1, VInt ?d0], [VInt 2, VInt ?d1], [VInt 3, VInt ?d2]]\<rparr>,
        \<lparr>fname = ''document.csv'', header = [''document_id''],
          data_rows = [[VInt 1], [VInt 2], [VInt 3]]\<rparr>]"
    by (simp add: main_def scenario_parse generate_csvs_def Let_def scenario_augment
          scenario_pk p w scenario_joins del: write_entities.simps)
  have "?d0 \<in> {1, 2, 3}" "?d1 \<in> {1, 2, 3}" "?d2 \<in> {1, 2, 3}"
    using choice_in[of "[1, 2, 3 :: int]" g1] choice_in[of "[1, 2, 3 :: int]" ?g2]
      choice_in[of "[1, 2, 3 :: int]" ?g3]
    by simp_all
  with m show ?thesis by blast
qed

section \<open>The undefined vocabularies\<close>
















section \<open>Names of entity files\<close>

text \<open>
  The entity names of a parsed diagram are words, and the name of an entity file has
  neither a directory part nor a null character.
\<close>

lemma match_entity_word:
  "match_entity line = Some n \<Longrightarrow> n \<noteq> [] \<and> (\<forall>c \<in> set n. is_word c)"
  by (auto simp: match_entity_def Let_def split: if_splits dest: set_takeWhileD)

lemma set_entity_keys: "set (map fst (set_entity k v ents)) = insert k (set (map fst ents))"
  by (auto simp: set_entity_def split: if_splits) force+

lemma parse_line_names:
  assumes "\<forall>n \<in> set (map fst (entities st)). \<forall>c \<in> set n. is_word c"
  shows "\<forall>n \<in> set (map fst (entities (parse_line st raw))). \<forall>c \<in> set n. is_word c"
  using assms match_entity_word[of "strip raw"]
  by (auto simp: parse_line_def parse_relation_def Let_def set_entity_keys append_col_keys
           simp del: set_map split: option.splits if_splits)

lemma parse_lines_names:
  "\<forall>n \<in> set (map fst (entities st)). \<forall>c \<in> set n. is_word c \<Longrightarrow>
   \<forall>n \<in> set (map fst (entities (parse_lines st ls))). \<forall>c \<in> set n. is_word c"
  unfolding parse_lines_def
proof (induction ls arbitrary: st)
  case Nil
  then show ?case by simp
next
  case (Cons l ls)
  from Cons.IH[OF parse_line_names[OF Cons.prems, of l]] show ?case by simp
qed

lemma word_lower_plain: "is_word c \<Longrightarrow> lower_char c \<noteq> CHR ''/'' \<and> lower_char c \<noteq> CHR 0x00"
  by (auto simp: is_word_def lower_char_def upper_letters_def lower_letters_def digit_chars_def)

lemma parsed_entity_file_opens:
  assumes "n \<in> set (map fst (fst (parse_puml ls)))"
  shows "open_fault out_dir (lower n @ ''.csv'') = None"
proof -
  have "\<forall>n \<in> set (map fst (entities (parse_lines parse_init ls))). \<forall>c \<in> set n. is_word c"
    by (rule parse_lines_names) (simp add: parse_init_def)
  with assms have "\<forall>c \<in> set n. is_word c" by (auto simp: parse_puml_def Let_def)
  then have "\<forall>c \<in> set (lower n). c \<noteq> CHR ''/'' \<and> c \<noteq> CHR 0x00"
    by (auto simp: lower_def dest: word_lower_plain)
  then show ?thesis by (auto simp: open_fault_def)
qed

end
